theory Spec2Isabelle
  imports Main
begin

section \<open>PDF Renamer: the rename controller of \<^verbatim>\<open>pythonRenamer.py\<close>\<close>

text \<open>
  The development embeds class \<^verbatim>\<open>PDFRenamer\<close>: the file list, the cursor, the remembered
  duplicate choice, the open document handle and the operations that change them
  (\<^verbatim>\<open>rename_current\<close>, \<^verbatim>\<open>skip_current\<close>, \<^verbatim>\<open>prev_file\<close>, \<^verbatim>\<open>next_file\<close>,
  \<^verbatim>\<open>load_file\<close>, \<^verbatim>\<open>change_folder\<close>, \<^verbatim>\<open>_select_and_load_new_folder_core\<close>).

  What lies outside the class is made explicit:
  \<^item> the functions of \<^verbatim>\<open>os\<close>, \<^verbatim>\<open>os.path\<close> and \<^verbatim>\<open>fitz\<close> are the fields of a record
    \<open>os_env\<close>, over an arbitrary type \<open>'fs\<close> of filesystem states; a call that raises
    returns \<open>Inl\<close> with the text of the exception;
  \<^item> the answers of the user to the modal dialogs are read from three queues held in the
    state (\<open>directories\<close>, \<open>yesnos\<close>, \<open>dialogs\<close>); a dialog whose queue is empty never
    returns, which is the outcome \<open>NoReturn\<close>;
  \<^item> message boxes, dialogs, document opens and closes, and calls of \<^verbatim>\<open>os.rename\<close> are
    appended to the list \<open>events\<close>, in program order;
  \<^item> widget configuration and page rendering (\<^verbatim>\<open>config\<close>, \<^verbatim>\<open>withdraw\<close>, \<^verbatim>\<open>deiconify\<close>,
    \<^verbatim>\<open>update_preview_image\<close>, zoom) are not modelled and are taken not to raise;
    \<^verbatim>\<open>window.destroy()\<close> sets the flag \<open>exited\<close>; an open handle is taken to be truthy.
\<close>

subsection \<open>Strings\<close>

text \<open>
  A character is a code point from U+0000 to U+00FF. \<^verbatim>\<open>str.lower\<close> maps the capital letters
  of that range, \<^verbatim>\<open>A\<close> to \<^verbatim>\<open>Z\<close> and U+00C0 to U+00DE without the multiplication sign U+00D7,
  to the letter 32 places further; the other characters are left as they are.
\<close>

definition lower_char :: "char \<Rightarrow> char" where
  "lower_char c =
     (let n = (of_char c :: nat) in
      if (65 \<le> n \<and> n \<le> 90) \<or> (192 \<le> n \<and> n \<le> 222 \<and> n \<noteq> 215)
      then char_of (n + 32) else c)"

definition lower :: "string \<Rightarrow> string" where
  "lower s = map lower_char s"

definition endswith :: "string \<Rightarrow> string \<Rightarrow> bool" where
  "endswith s suffix =
     (length suffix \<le> length s \<and> drop (length s - length suffix) s = suffix)"

text \<open>
  The characters that \<^verbatim>\<open>str.strip\<close> removes, those for which \<^verbatim>\<open>str.isspace\<close> holds: tab,
  line feed, vertical tab, form feed, carriage return (U+0009 to U+000D), the separators
  U+001C to U+001F, the space, the next-line control U+0085 and the no-break space U+00A0.
\<close>

definition isspace :: "char \<Rightarrow> bool" where
  "isspace c =
     (let n = (of_char c :: nat) in
      (9 \<le> n \<and> n \<le> 13) \<or> (28 \<le> n \<and> n \<le> 32) \<or> n = 133 \<or> n = 160)"

definition strip :: "string \<Rightarrow> string" where
  "strip s = rev (dropWhile isspace (rev (dropWhile isspace s)))"

text \<open>\<^verbatim>\<open>str(n)\<close> for an integer, as the f-string \<^verbatim>\<open>f"{count}"\<close> formats it.\<close>

definition digit_char :: "nat \<Rightarrow> char" where
  "digit_char d = char_of (48 + d)"

fun str_nat :: "nat \<Rightarrow> string" where
  "str_nat n = (if n < 10 then [digit_char n] else str_nat (n div 10) @ [digit_char (n mod 10)])"

declare str_nat.simps [simp del]

definition str_int :: "int \<Rightarrow> string" where
  "str_int i = (if i < 0 then CHR ''-'' # str_nat (nat (- i)) else str_nat (nat i))"

text \<open>Reading a decimal numeral back, used to show that \<open>str_nat\<close> is injective.\<close>

definition digit_value :: "char \<Rightarrow> nat" where
  "digit_value c = of_char c - 48"

definition read_nat :: "string \<Rightarrow> nat" where
  "read_nat cs = foldl (\<lambda>a c. 10 * a + digit_value c) 0 cs"

subsection \<open>The operating system and the viewer\<close>

datatype os_error = FileNotFoundError string | OtherError string

record 'fs os_env =
  path_join :: "string \<Rightarrow> string \<Rightarrow> string"
  path_abspath :: "string \<Rightarrow> string"
  path_normcase :: "string \<Rightarrow> string"
  path_splitext :: "string \<Rightarrow> string \<times> string"
  path_basename :: "string \<Rightarrow> string"
  path_exists :: "'fs \<Rightarrow> string \<Rightarrow> bool"
  os_listdir :: "'fs \<Rightarrow> string \<Rightarrow> os_error + string list"
  os_rename :: "'fs \<Rightarrow> string \<Rightarrow> string \<Rightarrow> string + 'fs"
  fitz_open :: "'fs \<Rightarrow> string \<Rightarrow> string + unit"

subsection \<open>Events and state\<close>

datatype event =
    ShowInfo string string
  | ShowError string string
  | AskYesNo string string
  | AskDirectory string
  | DuplicateDialog string string
  | DocOpen string
  | DocClose string
  | OsRename string string
  | WindowDestroy

datatype dialog_button = RenameAgainButton | AddNumberingButton | SkipButton

record 'fs app =
  folder :: string
  pdf_files :: "string list"
  current_index :: int
  doc :: "string option"
  first_load_done :: bool
  duplicate_handling_choice :: "string option"
  name_entry :: string
  exited :: bool
  fs :: 'fs
  directories :: "string list"
  yesnos :: "bool list"
  dialogs :: "(dialog_button option \<times> bool) list"
  events :: "event list"

definition PDF_EXTENSION :: string where "PDF_EXTENSION = ''.pdf''"
definition TITLE_ERROR :: string where "TITLE_ERROR = ''Error''"
definition TITLE_INFO :: string where "TITLE_INFO = ''Info''"
definition TITLE_FINISHED :: string where "TITLE_FINISHED = ''Finished''"
definition TITLE_CONFIRM_EXIT :: string where "TITLE_CONFIRM_EXIT = ''Confirm Exit''"

definition quote :: string where "quote = [CHR 0x27]"
definition newline :: string where "newline = [CHR 0x0A]"

definition emit :: "event \<Rightarrow> 'fs app \<Rightarrow> 'fs app" where
  "emit e s = s\<lparr>events := events s @ [e]\<rparr>"

definition showinfo :: "string \<Rightarrow> string \<Rightarrow> 'fs app \<Rightarrow> 'fs app" where
  "showinfo title msg s = emit (ShowInfo title msg) s"

definition showerror :: "string \<Rightarrow> string \<Rightarrow> 'fs app \<Rightarrow> 'fs app" where
  "showerror title msg s = emit (ShowError title msg) s"

definition askyesno :: "string \<Rightarrow> string \<Rightarrow> 'fs app \<Rightarrow> (bool \<times> 'fs app) option" where
  "askyesno title msg s =
     (case yesnos s of
        [] \<Rightarrow> None
      | res # rest \<Rightarrow> Some (res, emit (AskYesNo title msg) (s\<lparr>yesnos := rest\<rparr>)))"

text \<open>\<^verbatim>\<open>filedialog.askdirectory\<close>: the empty string is a cancelled dialog.\<close>

definition askdirectory :: "string \<Rightarrow> 'fs app \<Rightarrow> (string \<times> 'fs app) option" where
  "askdirectory initialdir s =
     (case directories s of
        [] \<Rightarrow> None
      | d # rest \<Rightarrow> Some (d, emit (AskDirectory initialdir) (s\<lparr>directories := rest\<rparr>)))"

subsection \<open>Scanning a folder, closing the document\<close>

definition find_pdf_files :: "'fs os_env \<Rightarrow> string \<Rightarrow> 'fs app \<Rightarrow> string list \<times> 'fs app" where
  "find_pdf_files env folder_path s =
     (case os_listdir env (fs s) folder_path of
        Inr names \<Rightarrow> ([f \<leftarrow> names. endswith (lower f) PDF_EXTENSION], s)
      | Inl (FileNotFoundError e) \<Rightarrow>
          ([], showerror TITLE_ERROR (''Folder not found: '' @ folder_path) s)
      | Inl (OtherError e) \<Rightarrow>
          ([], showerror TITLE_ERROR
                 (''Error accessing folder '' @ folder_path @ '': '' @ e) s))"

definition close_current_doc :: "'fs app \<Rightarrow> 'fs app" where
  "close_current_doc s =
     (case doc s of
        None \<Rightarrow> s
      | Some d \<Rightarrow> (emit (DocClose d) s)\<lparr>doc := None\<rparr>)"

definition exit_app :: "'fs app \<Rightarrow> 'fs app" where
  "exit_app s = (emit WindowDestroy s)\<lparr>exited := True\<rparr>"

lemma emit_fields [simp]:
  "folder (emit e s) = folder s"
  "pdf_files (emit e s) = pdf_files s"
  "current_index (emit e s) = current_index s"
  "doc (emit e s) = doc s"
  "first_load_done (emit e s) = first_load_done s"
  "duplicate_handling_choice (emit e s) = duplicate_handling_choice s"
  "name_entry (emit e s) = name_entry s"
  "exited (emit e s) = exited s"
  "fs (emit e s) = fs s"
  "directories (emit e s) = directories s"
  "yesnos (emit e s) = yesnos s"
  "dialogs (emit e s) = dialogs s"
  "events (emit e s) = events s @ [e]"
  by (simp_all add: emit_def)

lemma close_current_doc_fields [simp]:
  "folder (close_current_doc s) = folder s"
  "pdf_files (close_current_doc s) = pdf_files s"
  "current_index (close_current_doc s) = current_index s"
  "doc (close_current_doc s) = None"
  "first_load_done (close_current_doc s) = first_load_done s"
  "duplicate_handling_choice (close_current_doc s) = duplicate_handling_choice s"
  "name_entry (close_current_doc s) = name_entry s"
  "exited (close_current_doc s) = exited s"
  "fs (close_current_doc s) = fs s"
  "directories (close_current_doc s) = directories s"
  "yesnos (close_current_doc s) = yesnos s"
  "dialogs (close_current_doc s) = dialogs s"
  by (simp_all add: close_current_doc_def split: option.splits)

definition pending :: "'fs app \<Rightarrow> nat" where
  "pending s = length (directories s) + length (yesnos s)"

lemma pending_updates [simp]:
  "pending (s\<lparr>folder := a\<rparr>) = pending s"
  "pending (s\<lparr>pdf_files := b\<rparr>) = pending s"
  "pending (s\<lparr>current_index := c\<rparr>) = pending s"
  "pending (s\<lparr>first_load_done := d\<rparr>) = pending s"
  "pending (s\<lparr>doc := e\<rparr>) = pending s"
  "pending (s\<lparr>exited := f\<rparr>) = pending s"
  "pending (s\<lparr>name_entry := g\<rparr>) = pending s"
  by (simp_all add: pending_def)

lemma pending_emit: "pending (emit e s) = pending s"
  by (simp add: pending_def emit_def)

lemma pending_find_pdf_files: "pending (snd (find_pdf_files env p s)) = pending s"
  by (simp add: find_pdf_files_def showerror_def pending_emit split: sum.splits os_error.splits)

lemma pending_close_current_doc: "pending (close_current_doc s) = pending s"
  by (simp add: close_current_doc_def pending_def emit_def split: option.splits)

lemma pending_askdirectory: "askdirectory d s = Some (r, s') \<Longrightarrow> pending s' < pending s"
  by (auto simp: askdirectory_def pending_def emit_def split: list.splits)

lemma pending_askyesno: "askyesno t m s = Some (r, s') \<Longrightarrow> pending s' < pending s"
  by (auto simp: askyesno_def pending_def emit_def split: list.splits)

subsection \<open>Selecting a folder\<close>

text \<open>
  An operation returns (\<open>Returns\<close>), never returns (\<open>NoReturn\<close>: a dialog that nobody
  answers, or a loop that runs forever; with the state at that moment), or leaves by an
  exception nobody caught (\<open>Raises\<close>, with the text of the exception and the state at
  that moment).
\<close>

datatype ('a, 's) outcome = Returns 'a | NoReturn 's | Raises string 's

function select_and_load_new_folder_core ::
  "'fs os_env \<Rightarrow> 'fs app \<Rightarrow> (bool \<times> 'fs app, 'fs app) outcome" where
  "select_and_load_new_folder_core env s =
     (case askdirectory (folder s) s of
        None \<Rightarrow> NoReturn s
      | Some (new_folder, s1) \<Rightarrow>
          if new_folder = [] then
            (case askyesno TITLE_CONFIRM_EXIT
                    ''No folder was selected. Do you want to exit the application?'' s1 of
               None \<Rightarrow> NoReturn s1
             | Some (res, s2) \<Rightarrow> Returns (\<not> res, s2))
          else if new_folder = folder s1 \<and> pdf_files s1 \<noteq> [] then
            Returns (True, showinfo TITLE_INFO
                          ''The selected folder is already the current folder.'' s1)
          else
            (case find_pdf_files env new_folder s1 of
               (candidate_files, s2) \<Rightarrow>
                 if candidate_files \<noteq> [] then
                   Returns (True, (close_current_doc s2)
                                 \<lparr>folder := new_folder, pdf_files := candidate_files,
                                  current_index := 0, first_load_done := False\<rparr>)
                 else
                   select_and_load_new_folder_core env
                     (showerror TITLE_ERROR
                        (''No PDF files found in '' @ quote @ new_folder @ quote
                           @ ''. Please choose another folder.'') s2)))"
  by pat_completeness auto
termination
proof (relation "measure (\<lambda>(env, s). pending s)")
  show "wf (measure (\<lambda>(env :: 'fs os_env, s :: 'fs app). pending s))"
    by simp
next
  fix env :: "'fs os_env" and s :: "'fs app" and x2 new_folder s1 x y
  assume ask: "askdirectory (folder s) s = Some x2" "(new_folder, s1) = x2"
    and fnd: "(x, y) = find_pdf_files env new_folder s1"
  have "pending s1 < pending s"
    using ask pending_askdirectory [of "folder s" s new_folder s1] by simp
  moreover have "pending y = pending s1"
    using fnd pending_find_pdf_files [of env new_folder s1] by (metis snd_conv)
  ultimately show "((env, showerror TITLE_ERROR
          (''No PDF files found in '' @ quote @ new_folder @ quote
             @ ''. Please choose another folder.'') y), env, s)
      \<in> measure (\<lambda>(env, s). pending s)"
    by (simp add: showerror_def pending_emit)
qed

declare select_and_load_new_folder_core.simps [simp del]

lemma pending_select:
  "select_and_load_new_folder_core env s = Returns (b, s') \<Longrightarrow> pending s' < pending s"
proof (induction env s arbitrary: b s' rule: select_and_load_new_folder_core.induct)
  case (1 env s)
  from "1.prems" obtain new_folder s1 where
    ask: "askdirectory (folder s) s = Some (new_folder, s1)"
    by (subst (asm) select_and_load_new_folder_core.simps) (auto split: option.splits)
  have lt: "pending s1 < pending s"
    using ask by (rule pending_askdirectory)
  obtain cf s2 where fnd: "find_pdf_files env new_folder s1 = (cf, s2)"
    by (cases "find_pdf_files env new_folder s1")
  have eq2: "pending s2 = pending s1"
    using pending_find_pdf_files [of env new_folder s1] fnd by simp
  show ?case
  proof (cases "new_folder = []")
    case True
    with "1.prems" ask obtain res where "askyesno TITLE_CONFIRM_EXIT
        ''No folder was selected. Do you want to exit the application?'' s1 = Some (res, s')"
      by (subst (asm) select_and_load_new_folder_core.simps) (auto split: option.splits)
    then have "pending s' < pending s1" by (rule pending_askyesno)
    with lt show ?thesis by simp
  next
    case nonempty: False
    show ?thesis
    proof (cases "new_folder = folder s1 \<and> pdf_files s1 \<noteq> []")
      case True
      with "1.prems" ask nonempty have "s' = showinfo TITLE_INFO
          ''The selected folder is already the current folder.'' s1"
        by (subst (asm) select_and_load_new_folder_core.simps) auto
      with lt show ?thesis by (simp add: showinfo_def pending_emit)
    next
      case other: False
      show ?thesis
      proof (cases "cf = []")
        case True
        with "1.prems" ask nonempty other fnd
        have rec: "select_and_load_new_folder_core env
            (showerror TITLE_ERROR
               (''No PDF files found in '' @ quote @ new_folder @ quote
                  @ ''. Please choose another folder.'') s2) = Returns (b, s')"
          by (subst (asm) select_and_load_new_folder_core.simps) auto
        have "pending s' < pending (showerror TITLE_ERROR
               (''No PDF files found in '' @ quote @ new_folder @ quote
                  @ ''. Please choose another folder.'') s2)"
          using "1.IH" [OF ask refl nonempty other fnd [symmetric] _ rec] True by simp
        with lt eq2 show ?thesis by (simp add: showerror_def pending_emit)
      next
        case False
        with "1.prems" ask nonempty other fnd
        have "s' = (close_current_doc s2)
                     \<lparr>folder := new_folder, pdf_files := cf,
                      current_index := 0, first_load_done := False\<rparr>"
          by (subst (asm) select_and_load_new_folder_core.simps) auto
        with lt eq2 show ?thesis by (simp add: pending_close_current_doc)
      qed
    qed
  qed
qed

subsection \<open>Loading a file, skipping, changing folder\<close>

type_synonym 'fs result = "('fs app, 'fs app) outcome"

function load_file :: "'fs os_env \<Rightarrow> 'fs app \<Rightarrow> int \<Rightarrow> 'fs result"
  and skip_current :: "'fs os_env \<Rightarrow> 'fs app \<Rightarrow> 'fs result"
  and change_folder :: "'fs os_env \<Rightarrow> 'fs app \<Rightarrow> 'fs result"
where
  "load_file env s0 index =
     (let s = close_current_doc s0 in
      if index \<ge> int (length (pdf_files s)) then
        if pdf_files s = [] then
          (case select_and_load_new_folder_core env
                  (showinfo TITLE_INFO ''No PDF files to process.'' s) of
             NoReturn s1 \<Rightarrow> NoReturn s1
           | Raises e s1 \<Rightarrow> Raises e s1
           | Returns (ok, s1) \<Rightarrow>
               if ok then load_file env s1 (current_index s1)
               else Returns (exit_app s1))
        else
          (case askyesno TITLE_FINISHED
                  ''All files processed. Do you want to exit the program?'' s of
             None \<Rightarrow> NoReturn s
           | Some (result, s1) \<Rightarrow>
               if result then Returns (exit_app s1) else change_folder env s1)
      else if index < - int (length (pdf_files s)) then
        Raises ''list index out of range'' s
      else
        (let current_file =
               pdf_files s ! nat (if index < 0 then int (length (pdf_files s)) + index else index);
             pdf_path = path_join env (folder s) current_file
         in case fitz_open env (fs s) pdf_path of
              Inl e \<Rightarrow>
                skip_current env
                  (showerror TITLE_ERROR
                     (''Failed to open PDF: '' @ current_file @ newline @ e) s)
            | Inr u \<Rightarrow>
                Returns ((emit (DocOpen pdf_path) s)
                   \<lparr>doc := Some pdf_path, first_load_done := True,
                    name_entry := fst (path_splitext env current_file)\<rparr>)))"
| "skip_current env s0 =
     (let s = close_current_doc s0;
          s1 = s\<lparr>current_index := current_index s + 1\<rparr>
      in load_file env s1 (current_index s1))"
| "change_folder env s =
     (case select_and_load_new_folder_core env s of
        NoReturn s1 \<Rightarrow> NoReturn s1
      | Raises e s1 \<Rightarrow> Raises e s1
      | Returns (ok, s1) \<Rightarrow>
          if ok then load_file env s1 (current_index s1)
          else Returns (showinfo TITLE_INFO
                 ''Folder selection cancelled or failed. Continuing with previous state if any.'' s1))"
  by pat_completeness auto
termination
  apply (relation "measures [(\<lambda>x. case x of
            Inl (env, s, index) \<Rightarrow> pending s
          | Inr (Inl (env, s)) \<Rightarrow> pending s
          | Inr (Inr (env, s)) \<Rightarrow> pending s),
      (\<lambda>x. case x of
            Inl (env, s, index) \<Rightarrow>
              (if index < int (length (pdf_files s))
               then 2 * nat (int (length (pdf_files s)) - current_index s) + 2 else 0)
          | Inr (Inl (env, s)) \<Rightarrow>
              2 * nat (int (length (pdf_files s)) - current_index s) + 1
          | Inr (Inr (env, s)) \<Rightarrow> 0)]")
  apply (auto simp: pending_close_current_doc showinfo_def showerror_def pending_emit
          dest!: pending_select pending_askyesno)
  done

declare load_file.simps [simp del] skip_current.simps [simp del] change_folder.simps [simp del]

subsection \<open>The duplicate dialog and the numbering probe\<close>

definition button_action :: "dialog_button \<Rightarrow> string" where
  "button_action b =
     (case b of
        RenameAgainButton \<Rightarrow> ''rename_again''
      | AddNumberingButton \<Rightarrow> ''add_numbering''
      | SkipButton \<Rightarrow> ''skip'')"

text \<open>\<^verbatim>\<open>duplicate_dialog\<close>: the button pressed (none when the window is closed) and the
  state of the checkbox.\<close>

definition duplicate_dialog ::
  "string \<Rightarrow> string \<Rightarrow> 'fs app \<Rightarrow> ((string option \<times> bool) \<times> 'fs app) option" where
  "duplicate_dialog new_name current_file s =
     (case dialogs s of
        [] \<Rightarrow> None
      | (pressed, remember) # rest \<Rightarrow>
          Some ((map_option button_action pressed, remember),
                emit (DuplicateDialog new_name current_file) (s\<lparr>dialogs := rest\<rparr>)))"

text \<open>Truth value of an \<^verbatim>\<open>Optional[str]\<close>: neither \<^verbatim>\<open>None\<close> nor the empty string.\<close>

definition truthy :: "string option \<Rightarrow> bool" where
  "truthy v = (case v of None \<Rightarrow> False | Some x \<Rightarrow> x \<noteq> [])"

text \<open>Lines 390 to 398: the action to take on a collision, and the state after asking.\<close>

definition duplicate_action ::
  "string \<Rightarrow> string \<Rightarrow> 'fs app \<Rightarrow> (string option \<times> 'fs app) option" where
  "duplicate_action new_name_base current_file s =
     (if duplicate_handling_choice s \<noteq> Some ''ask'' then
        Some (duplicate_handling_choice s, s)
      else
        (case duplicate_dialog new_name_base current_file s of
           None \<Rightarrow> None
         | Some ((chosen_action, remember_this_choice), s1) \<Rightarrow>
             Some (chosen_action,
                   if remember_this_choice \<and> truthy chosen_action
                   then s1\<lparr>duplicate_handling_choice := chosen_action\<rparr>
                   else s1)))"

definition numbered_candidate ::
  "'fs os_env \<Rightarrow> string \<Rightarrow> string \<Rightarrow> string \<Rightarrow> int \<Rightarrow> string" where
  "numbered_candidate env dir base_for_numbering ext count =
     path_join env dir (base_for_numbering @ ''('' @ str_int count @ '')'' @ ext)"

text \<open>The \<^verbatim>\<open>while\<close> loop of lines 408 to 411, on the pair \<^verbatim>\<open>(count, candidate_path)\<close>.\<close>

partial_function (option) numbering_loop ::
  "'fs os_env \<Rightarrow> 'fs \<Rightarrow> string \<Rightarrow> string \<Rightarrow> string \<Rightarrow> int \<Rightarrow> string \<Rightarrow> string option" where
  "numbering_loop env fsys dir base_for_numbering ext count candidate_path =
     (if path_exists env fsys candidate_path then
        numbering_loop env fsys dir base_for_numbering ext (count + 1)
          (numbered_candidate env dir base_for_numbering ext (count + 1))
      else Some candidate_path)"

text \<open>Lines 404 to 412.\<close>

declare numbering_loop.simps [code]

definition add_numbering ::
  "'fs os_env \<Rightarrow> 'fs \<Rightarrow> string \<Rightarrow> string \<Rightarrow> string \<Rightarrow> string option" where
  "add_numbering env fsys dir new_name_base ext =
     numbering_loop env fsys dir new_name_base ext 1
       (numbered_candidate env dir new_name_base ext 1)"

subsection \<open>Renaming the current file\<close>

text \<open>The \<^verbatim>\<open>except\<close> clause of lines 433 to 440.\<close>

definition rename_failed ::
  "'fs os_env \<Rightarrow> string \<Rightarrow> string \<Rightarrow> string \<Rightarrow> 'fs app \<Rightarrow> 'fs result" where
  "rename_failed env current_file new_file_path e s =
     load_file env
       (showerror TITLE_ERROR
          (''Error renaming '' @ quote @ current_file @ quote @ '' to '' @ quote
             @ path_basename env new_file_path @ quote @ '':'' @ newline @ e) s)
       (current_index s)"

text \<open>
  Lines 419 to 440, reached from three places of \<^verbatim>\<open>rename_current\<close> with the path decided
  there. The \<^verbatim>\<open>try\<close> block holds the rename, the update of the list (which raises
  \<^verbatim>\<open>IndexError\<close> out of range and counts from the end for a negative index) and the
  call of \<^verbatim>\<open>load_file\<close>.
\<close>

definition rename_attempt ::
  "'fs os_env \<Rightarrow> string \<Rightarrow> string \<Rightarrow> string \<Rightarrow> 'fs app \<Rightarrow> 'fs result" where
  "rename_attempt env current_file old_file_path new_file_path s0 =
     (let s = emit (OsRename old_file_path new_file_path) (close_current_doc s0) in
      case os_rename env (fs s) old_file_path new_file_path of
        Inl e \<Rightarrow> rename_failed env current_file new_file_path e s
      | Inr fs' \<Rightarrow>
          (let final_renamed_filename = path_basename env new_file_path;
               n = int (length (pdf_files s));
               i = current_index s
           in if i \<ge> n \<or> i < - n then
                rename_failed env current_file new_file_path
                  ''list assignment index out of range'' (s\<lparr>fs := fs'\<rparr>)
              else
                (let s1 = s\<lparr>fs := fs',
                            pdf_files := (pdf_files s)
                              [nat (if i < 0 then n + i else i) := final_renamed_filename]\<rparr>;
                     s2 = s1\<lparr>current_index := current_index s1 + 1\<rparr>
                 in case load_file env s2 (current_index s2) of
                      Raises e s3 \<Rightarrow> rename_failed env current_file new_file_path e s3
                    | r \<Rightarrow> r)))"

definition rename_current :: "'fs os_env \<Rightarrow> 'fs app \<Rightarrow> 'fs result" where
  "rename_current env s =
     (let new_name_base = strip (name_entry s) in
      if pdf_files s = []
         \<or> \<not> (0 \<le> current_index s \<and> current_index s < int (length (pdf_files s))) then
        Returns (showinfo TITLE_INFO ''No file selected or list is empty to rename.'' s)
      else
        (let current_file = pdf_files s ! nat (current_index s);
             ext = snd (path_splitext env current_file);
             old_file_path = path_join env (folder s) current_file;
             prospective_new_full_filename = new_name_base @ ext;
             new_file_path = path_join env (folder s) prospective_new_full_filename
         in
         if path_normcase env (path_abspath env new_file_path)
              = path_normcase env (path_abspath env old_file_path) then
           (let s1 = close_current_doc s;
                s2 = s1\<lparr>current_index := current_index s1 + 1\<rparr>
            in load_file env s2 (current_index s2))
         else if path_exists env (fs s) new_file_path then
           (case duplicate_action new_name_base current_file s of
              None \<Rightarrow> NoReturn s
            | Some (action_to_take, s1) \<Rightarrow>
                if action_to_take = Some ''rename_again'' then Returns s1
                else if action_to_take = Some ''add_numbering'' then
                  (case add_numbering env (fs s1) (folder s1) new_name_base ext of
                     None \<Rightarrow> NoReturn s1
                   | Some candidate_path \<Rightarrow>
                       rename_attempt env current_file old_file_path candidate_path s1)
                else if action_to_take = Some ''skip'' then skip_current env s1
                else if action_to_take = None then Returns s1
                else rename_attempt env current_file old_file_path new_file_path s1)
         else rename_attempt env current_file old_file_path new_file_path s))"

definition prev_file :: "'fs os_env \<Rightarrow> 'fs app \<Rightarrow> 'fs result" where
  "prev_file env s =
     (if current_index s > 0 then
        (let s1 = s\<lparr>current_index := current_index s - 1\<rparr>
         in load_file env s1 (current_index s1))
      else Returns (showinfo TITLE_INFO ''This is the first file.'' s))"

definition next_file :: "'fs os_env \<Rightarrow> 'fs app \<Rightarrow> 'fs result" where
  "next_file env s =
     (if current_index s < int (length (pdf_files s)) - 1 then
        (let s1 = s\<lparr>current_index := current_index s + 1\<rparr>
         in load_file env s1 (current_index s1))
      else Returns (showinfo TITLE_INFO ''This is the last file.'' s))"

subsection \<open>The quantities of one rename\<close>

definition selected :: "'fs app \<Rightarrow> bool" where
  "selected s =
     (pdf_files s \<noteq> [] \<and> 0 \<le> current_index s
        \<and> current_index s < int (length (pdf_files s)))"

definition current_file :: "'fs app \<Rightarrow> string" where
  "current_file s = pdf_files s ! nat (current_index s)"

definition old_file_path :: "'fs os_env \<Rightarrow> 'fs app \<Rightarrow> string" where
  "old_file_path env s = path_join env (folder s) (current_file s)"

definition proposed_path :: "'fs os_env \<Rightarrow> 'fs app \<Rightarrow> string" where
  "proposed_path env s =
     path_join env (folder s)
       (strip (name_entry s) @ snd (path_splitext env (current_file s)))"

definition same_file :: "'fs os_env \<Rightarrow> 'fs app \<Rightarrow> bool" where
  "same_file env s =
     (path_normcase env (path_abspath env (proposed_path env s))
        = path_normcase env (path_abspath env (old_file_path env s)))"

definition collision :: "'fs os_env \<Rightarrow> 'fs app \<Rightarrow> bool" where
  "collision env s =
     (selected s \<and> \<not> same_file env s \<and> path_exists env (fs s) (proposed_path env s))"

subsection \<open>An in-memory filesystem for the worked examples\<close>

text \<open>
  A small instance of \<open>os_env\<close> on which the operations can be run: the files are
  absolute paths with \<^verbatim>\<open>/\<close> as separator, each with a flag telling whether the viewer can
  open it; names are compared as they are written; a path listed in \<open>locked\<close> cannot be
  renamed.
\<close>

record mem_fs =
  entries :: "(string \<times> bool) list"
  locked :: "string list"

definition mem_basename :: "string \<Rightarrow> string" where
  "mem_basename p = rev (takeWhile (\<lambda>c. c \<noteq> CHR ''/'') (rev p))"

definition mem_dirname :: "string \<Rightarrow> string" where
  "mem_dirname p = rev (drop 1 (dropWhile (\<lambda>c. c \<noteq> CHR ''/'') (rev p)))"

definition mem_splitext :: "string \<Rightarrow> string \<times> string" where
  "mem_splitext f =
     (let e = takeWhile (\<lambda>c. c \<noteq> CHR ''.'') (rev f) in
      if length e = length f then (f, [])
      else (take (length f - length e - 1) f, CHR ''.'' # rev e))"

definition mem_exists :: "mem_fs \<Rightarrow> string \<Rightarrow> bool" where
  "mem_exists m p = (p \<in> set (map fst (entries m)))"

definition mem_rename :: "mem_fs \<Rightarrow> string \<Rightarrow> string \<Rightarrow> string + mem_fs" where
  "mem_rename m old new =
     (if \<not> mem_exists m old then Inl ''No such file or directory''
      else if old \<in> set (locked m) then Inl ''Permission denied''
      else Inr (m\<lparr>entries :=
             map (\<lambda>(p, ok). if p = old then (new, ok) else (p, ok))
               (filter (\<lambda>(p, ok). p \<noteq> new) (entries m))\<rparr>))"

definition mem_listdir :: "mem_fs \<Rightarrow> string \<Rightarrow> os_error + string list" where
  "mem_listdir m d =
     Inr (map (mem_basename \<circ> fst) (filter (\<lambda>(p, ok). mem_dirname p = d) (entries m)))"

definition mem_open :: "mem_fs \<Rightarrow> string \<Rightarrow> string + unit" where
  "mem_open m p =
     (case map_of (entries m) p of
        Some True \<Rightarrow> Inr ()
      | _ \<Rightarrow> Inl ''cannot open document'')"

definition mem_env :: "mem_fs os_env" where
  "mem_env =
     \<lparr>path_join = (\<lambda>d f. d @ ''/'' @ f),
      path_abspath = (\<lambda>p. p),
      path_normcase = (\<lambda>p. p),
      path_splitext = mem_splitext,
      path_basename = mem_basename,
      path_exists = mem_exists,
      os_listdir = mem_listdir,
      os_rename = mem_rename,
      fitz_open = mem_open\<rparr>"

definition start :: "string \<Rightarrow> string list \<Rightarrow> (string \<times> bool) list \<Rightarrow> mem_fs app" where
  "start dir files ents =
     \<lparr>folder = dir, pdf_files = files, current_index = 0, doc = None,
      first_load_done = False, duplicate_handling_choice = Some ''ask'',
      name_entry = [], exited = False,
      fs = \<lparr>entries = ents, locked = []\<rparr>,
      directories = [], yesnos = [], dialogs = [], events = []\<rparr>"

text \<open>The state while the first file of the list is displayed, with a name typed.\<close>

definition viewing :: "string \<Rightarrow> string list \<Rightarrow> (string \<times> bool) list \<Rightarrow> string \<Rightarrow> mem_fs app" where
  "viewing dir files ents typed =
     (start dir files ents)\<lparr>doc := Some (dir @ ''/'' @ hd files), name_entry := typed\<rparr>"

subsection \<open>Outcomes, the order of events, sessions\<close>

text \<open>
  Reading a list of events from a given handle (the open document, if any): no document
  is opened and no rename is called while a handle is open.
\<close>

fun handles_ok :: "string option \<Rightarrow> event list \<Rightarrow> bool" where
  "handles_ok h [] = True"
| "handles_ok h (DocOpen p # es) = (h = None \<and> handles_ok (Some p) es)"
| "handles_ok h (DocClose p # es) = handles_ok None es"
| "handles_ok h (OsRename a b # es) = (h = None \<and> handles_ok h es)"
| "handles_ok h (e # es) = handles_ok h es"

fun handle_after :: "string option \<Rightarrow> event list \<Rightarrow> string option" where
  "handle_after h [] = h"
| "handle_after h (DocOpen p # es) = handle_after (Some p) es"
| "handle_after h (DocClose p # es) = handle_after None es"
| "handle_after h (e # es) = handle_after h es"

text \<open>Events that neither touch a file nor ask about a duplicate.\<close>

fun plain :: "event \<Rightarrow> bool" where
  "plain (OsRename a b) = False"
| "plain (DuplicateDialog a b) = False"
| "plain e = True"

text \<open>Message boxes, questions and the end of the window.\<close>

fun message :: "event \<Rightarrow> bool" where
  "message (ShowInfo t m) = True"
| "message (ShowError t m) = True"
| "message (AskYesNo t m) = True"
| "message (AskDirectory d) = True"
| "message WindowDestroy = True"
| "message e = False"

text \<open>The state an operation ends in, whatever its outcome.\<close>

definition state_of :: "('fs app, 'fs app) outcome \<Rightarrow> 'fs app" where
  "state_of r = (case r of Returns s \<Rightarrow> s | NoReturn s \<Rightarrow> s | Raises e s \<Rightarrow> s)"

definition selection_state :: "(bool \<times> 'fs app, 'fs app) outcome \<Rightarrow> 'fs app" where
  "selection_state r = (case r of Returns (ok, s) \<Rightarrow> s | NoReturn s \<Rightarrow> s | Raises e s \<Rightarrow> s)"

text \<open>
  \<open>ordered s s'\<close>: the events of \<open>s'\<close> extend those of \<open>s\<close>, the extension respects the
  handles starting from the document of \<open>s\<close>, and ends with the document of \<open>s'\<close>.
  \<open>loads_only s s'\<close>: moreover the filesystem, the remembered choice and the pending
  dialog answers are those of \<open>s\<close>, and the extension holds plain events only.
\<close>

definition ordered :: "'fs app \<Rightarrow> 'fs app \<Rightarrow> bool" where
  "ordered s s' =
     (\<exists>es. events s' = events s @ es \<and> handles_ok (doc s) es
        \<and> handle_after (doc s) es = doc s')"

definition loads_only :: "'fs app \<Rightarrow> 'fs app \<Rightarrow> bool" where
  "loads_only s s' =
     (fs s' = fs s \<and> duplicate_handling_choice s' = duplicate_handling_choice s
      \<and> dialogs s' = dialogs s
      \<and> (\<exists>es. events s' = events s @ es \<and> handles_ok (doc s) es
            \<and> handle_after (doc s) es = doc s' \<and> list_all plain es))"

text \<open>\<open>keeps s s'\<close>: ordered events, with the remembered choice and the pending dialog
  answers unchanged.\<close>

definition keeps :: "'fs app \<Rightarrow> 'fs app \<Rightarrow> bool" where
  "keeps s s' =
     (duplicate_handling_choice s' = duplicate_handling_choice s \<and> dialogs s' = dialogs s
      \<and> ordered s s')"

text \<open>
  What the user does between two operations: type a name in the entry, or press one of
  the buttons. A session is a list of such actions; it ends when the window is destroyed
  or an operation does not return.
\<close>

datatype user_action = TypeName string | Rename | Skip | PrevFile | NextFile | ChangeFolder

fun perform :: "'fs os_env \<Rightarrow> user_action \<Rightarrow> 'fs app \<Rightarrow> 'fs result" where
  "perform env (TypeName t) s = Returns (s\<lparr>name_entry := t\<rparr>)"
| "perform env Rename s = rename_current env s"
| "perform env Skip s = skip_current env s"
| "perform env PrevFile s = prev_file env s"
| "perform env NextFile s = next_file env s"
| "perform env ChangeFolder s = change_folder env s"

fun run :: "'fs os_env \<Rightarrow> user_action list \<Rightarrow> 'fs app \<Rightarrow> 'fs result" where
  "run env [] s = Returns s"
| "run env (a # as) s =
     (case perform env a s of
        Returns s' \<Rightarrow> if exited s' then Returns s' else run env as s'
      | r \<Rightarrow> r)"

text \<open>
  \<open>session_step s s'\<close>: what every operation guarantees between the state it starts from
  and the state it ends in: the events are ordered with respect to the handles, a choice
  that is not \<^verbatim>\<open>None\<close> stays so, and a remembered choice (not \<^verbatim>\<open>"ask"\<close>) is kept, with the
  pending dialog answers untouched.
\<close>

definition session_step :: "'fs app \<Rightarrow> 'fs app \<Rightarrow> bool" where
  "session_step s s' =
     (ordered s s'
      \<and> (duplicate_handling_choice s \<noteq> None \<longrightarrow> duplicate_handling_choice s' \<noteq> None)
      \<and> (duplicate_handling_choice s \<noteq> Some ''ask'' \<longrightarrow>
           duplicate_handling_choice s' = duplicate_handling_choice s
           \<and> dialogs s' = dialogs s))"




subsection \<open>Staying in the folder\<close>

text \<open>
  \<open>answered s s'\<close>: the answers to the folder dialog consumed between \<open>s\<close> and \<open>s'\<close>.
  \<open>loads_another_folder env s s'\<close>: one of them names a folder other than the folder of
  \<open>s\<close> whose scan finds a PDF; with files loaded in \<open>s\<close>, such an answer is the only way
  for \<^verbatim>\<open>_select_and_load_new_folder_core\<close> to replace the folder, the file list and the
  cursor (a cancelled dialog, the current folder and a folder without PDF files do not).
\<close>

definition answered :: "'fs app \<Rightarrow> 'fs app \<Rightarrow> string list" where
  "answered s s' = take (length (directories s) - length (directories s')) (directories s)"

definition loads_another_folder :: "'fs os_env \<Rightarrow> 'fs app \<Rightarrow> 'fs app \<Rightarrow> bool" where
  "loads_another_folder env s s' =
     (\<exists>d \<in> set (answered s s').
        d \<noteq> [] \<and> d \<noteq> folder s \<and> fst (find_pdf_files env d s') \<noteq> [])"

text \<open>
  \<open>ready s\<close>: files are loaded and the cursor is not negative. \<open>in_folder env s s'\<close>: the
  filesystem is the one of \<open>s\<close>, \<open>s'\<close> is ready, and either a folder answer consumed on the
  way names another folder with PDF files, or the folder and the file list are those of
  \<open>s\<close> and the cursor has not moved back, nor moved at all when it was past the last file.
\<close>

definition ready :: "'fs app \<Rightarrow> bool" where
  "ready s = (pdf_files s \<noteq> [] \<and> 0 \<le> current_index s)"

definition in_folder :: "'fs os_env \<Rightarrow> 'fs app \<Rightarrow> 'fs app \<Rightarrow> bool" where
  "in_folder env s s' =
     (fs s' = fs s \<and> ready s'
      \<and> (\<exists>ans. directories s = ans @ directories s'
            \<and> ((\<exists>d \<in> set ans. d \<noteq> [] \<and> d \<noteq> folder s \<and> fst (find_pdf_files env d s) \<noteq> [])
               \<or> (folder s' = folder s \<and> pdf_files s' = pdf_files s
                   \<and> current_index s \<le> current_index s'
                   \<and> (int (length (pdf_files s)) \<le> current_index s \<longrightarrow>
                         current_index s' = current_index s)))))"

subsection \<open>States of the worked examples\<close>

text \<open>Three files, the first displayed, with \<^verbatim>\<open>"skip"\<close> remembered.\<close>

definition three_files :: "mem_fs app" where
  "three_files =
     (viewing ''/d'' [''a.pdf'', ''x.pdf'', ''y.pdf'']
        [(''/d/a.pdf'', True), (''/d/x.pdf'', True), (''/d/y.pdf'', True)] [])
       \<lparr>duplicate_handling_choice := Some ''skip''\<rparr>"

text \<open>Two files, the first displayed.\<close>

definition two_files :: "mem_fs app" where
  "two_files =
     viewing ''/d'' [''a.pdf'', ''b.pdf''] [(''/d/a.pdf'', True), (''/d/b.pdf'', True)] []"


text \<open>The file under the cursor has vanished from the disk: the rename raises, and so does
  the attempt to reopen the file.\<close>

definition first_vanished :: "mem_fs app" where
  "first_vanished =
     viewing ''/d'' [''a.pdf'', ''b.pdf''] [(''/d/b.pdf'', True)] ''x''"

text \<open>One file, displayed; the user will twice decline to exit when all files are
  processed, cancel the folder dialog and confirm.\<close>

definition one_file :: "mem_fs app" where
  "one_file =
     (viewing ''/d'' [''a.pdf''] [(''/d/a.pdf'', True)] [])
       \<lparr>yesnos := [False, True, False, True], directories := [[], []]\<rparr>"

text \<open>Three files, the first displayed with the name of the third typed; the user will press
  \<^verbatim>\<open>Skip\<close> in the duplicate dialog with the box ticked.\<close>

definition two_collisions :: "mem_fs app" where
  "two_collisions =
     (viewing ''/d'' [''a.pdf'', ''b.pdf'', ''x.pdf'']
        [(''/d/a.pdf'', True), (''/d/b.pdf'', True), (''/d/x.pdf'', True)] ''x'')
       \<lparr>dialogs := [(Some SkipButton, True)]\<rparr>"

text \<open>Two files, the first displayed with the name of the second typed; the user will tick the
  box and close the duplicate dialog without pressing a button.\<close>

definition dismissed :: "mem_fs app" where
  "dismissed =
     (viewing ''/d'' [''a.pdf'', ''x.pdf''] [(''/d/a.pdf'', True), (''/d/x.pdf'', True)] ''x'')
       \<lparr>dialogs := [(None, True)]\<rparr>"


text \<open>One file, displayed with a name typed, and a second folder with two files; asked whether
  to exit the user will answer no and pick the second folder.\<close>

definition then_another_folder :: "string \<Rightarrow> mem_fs app" where
  "then_another_folder typed =
     (viewing ''/d'' [''a.pdf'']
        [(''/d/a.pdf'', True), (''/e/c.pdf'', True), (''/e/d.pdf'', True)] typed)
       \<lparr>yesnos := [False], directories := [''/e'']\<rparr>"


section \<open>Properties\<close>

subsection \<open>Unfolding sets for the worked examples\<close>

lemmas mem_defs =
  mem_env_def mem_splitext_def mem_basename_def mem_dirname_def mem_exists_def
  mem_rename_def mem_listdir_def mem_open_def start_def

lemmas rename_defs =
  selected_def current_file_def old_file_path_def proposed_path_def same_file_def
  collision_def strip_def isspace_def duplicate_action_def duplicate_dialog_def
  truthy_def button_action_def emit_def showinfo_def showerror_def
  close_current_doc_def TITLE_INFO_def TITLE_ERROR_def quote_def newline_def

lemmas scan_defs =
  find_pdf_files_def lower_def lower_char_def endswith_def PDF_EXTENSION_def
  askdirectory_def askyesno_def

subsection \<open>The branches of \<^verbatim>\<open>rename_current\<close>\<close>

lemma rename_current_not_selected:
  "\<not> selected s \<Longrightarrow>
     rename_current env s =
       Returns (showinfo TITLE_INFO ''No file selected or list is empty to rename.'' s)"
  by (auto simp: rename_current_def selected_def Let_def)

lemma rename_current_same_file:
  "selected s \<Longrightarrow> same_file env s \<Longrightarrow>
     rename_current env s =
       load_file env ((close_current_doc s)\<lparr>current_index := current_index s + 1\<rparr>)
         (current_index s + 1)"
  by (auto simp: rename_current_def selected_def same_file_def proposed_path_def
        old_file_path_def current_file_def Let_def)

lemma rename_current_collision:
  "collision env s \<Longrightarrow>
     rename_current env s =
       (case duplicate_action (strip (name_entry s)) (current_file s) s of
          None \<Rightarrow> NoReturn s
        | Some (action_to_take, s1) \<Rightarrow>
            if action_to_take = Some ''rename_again'' then Returns s1
            else if action_to_take = Some ''add_numbering'' then
              (case add_numbering env (fs s1) (folder s1) (strip (name_entry s))
                      (snd (path_splitext env (current_file s))) of
                 None \<Rightarrow> NoReturn s1
               | Some candidate_path \<Rightarrow>
                   rename_attempt env (current_file s) (old_file_path env s) candidate_path s1)
            else if action_to_take = Some ''skip'' then skip_current env s1
            else if action_to_take = None then Returns s1
            else rename_attempt env (current_file s) (old_file_path env s)
                   (proposed_path env s) s1)"
  by (auto simp: rename_current_def collision_def selected_def same_file_def proposed_path_def
        old_file_path_def current_file_def Let_def split: option.splits prod.splits)

lemma rename_current_free:
  "selected s \<Longrightarrow> \<not> same_file env s \<Longrightarrow> \<not> path_exists env (fs s) (proposed_path env s) \<Longrightarrow>
     rename_current env s =
       rename_attempt env (current_file s) (old_file_path env s) (proposed_path env s) s"
  by (auto simp: rename_current_def selected_def same_file_def proposed_path_def
        old_file_path_def current_file_def Let_def)

subsection \<open>Renaming with nothing selected\<close>

text \<open>
  Claim C10. When the file list is empty or the cursor is not an index into it (negative, or
  at or beyond the length), \<^verbatim>\<open>rename_current\<close> returns the state it was given with one
  more event, the information box: the file list, the cursor, the remembered duplicate
  choice, the filesystem and every other field are unchanged.
\<close>

theorem rename_without_selection_is_noop:
  assumes "pdf_files s = [] \<or> current_index s < 0
             \<or> current_index s \<ge> int (length (pdf_files s))"
  shows "rename_current env s =
           Returns (s\<lparr>events := events s
              @ [ShowInfo ''Info'' ''No file selected or list is empty to rename.'']\<rparr>)"
proof -
  from assms have "\<not> selected s"
    by (auto simp: selected_def)
  then show ?thesis
    by (simp add: rename_current_not_selected showinfo_def emit_def TITLE_INFO_def)
qed

theorem rename_without_selection_is_noop_witness:
  "(pdf_files ((start ''/d'' [''a.pdf''] [(''/d/a.pdf'', True)])\<lparr>current_index := 1\<rparr>) = []
      \<or> current_index ((start ''/d'' [''a.pdf''] [(''/d/a.pdf'', True)])\<lparr>current_index := 1\<rparr>) < 0
      \<or> current_index ((start ''/d'' [''a.pdf''] [(''/d/a.pdf'', True)])\<lparr>current_index := 1\<rparr>)
           \<ge> int (length (pdf_files
                 ((start ''/d'' [''a.pdf''] [(''/d/a.pdf'', True)])\<lparr>current_index := 1\<rparr>))))
   \<and> rename_current mem_env
        ((start ''/d'' [''a.pdf''] [(''/d/a.pdf'', True)])\<lparr>current_index := 1\<rparr>)
      = Returns ((start ''/d'' [''a.pdf''] [(''/d/a.pdf'', True)])
          \<lparr>current_index := 1,
           events := [ShowInfo ''Info'' ''No file selected or list is empty to rename.'']\<rparr>)"
  using rename_without_selection_is_noop
    [of "(start ''/d'' [''a.pdf''] [(''/d/a.pdf'', True)])\<lparr>current_index := 1\<rparr>" mem_env]
  by (simp add: start_def)

subsection \<open>Retry and cancel\<close>

lemma duplicate_action_frame:
  assumes "duplicate_action n f s = Some (a, s1)"
  shows "fs s1 = fs s" "pdf_files s1 = pdf_files s" "current_index s1 = current_index s"
    "doc s1 = doc s" "folder s1 = folder s"
    "events s1 = events s \<or> events s1 = events s @ [DuplicateDialog n f]"
  using assms
  by (auto simp: duplicate_action_def duplicate_dialog_def
        split: if_splits option.splits list.splits prod.splits)

text \<open>
  Claim C7. On a collision (a file is selected, the proposed path is not the file's own and
  exists) whose action is \<^verbatim>\<open>"rename_again"\<close> or \<^verbatim>\<open>None\<close> (the dialog was closed without a
  choice), \<^verbatim>\<open>rename_current\<close> returns at once: the filesystem, the file list, the cursor,
  the folder and the open document are those of the state before, and the only event that
  can have been added is the duplicate dialog itself, so no rename was attempted. The name
  compared is the entry stripped as \<^verbatim>\<open>str.strip\<close> does: in the example the user typed \<^verbatim>\<open>x\<close>
  followed by a no-break space while \<^verbatim>\<open>x.pdf\<close> exists.
\<close>

theorem retry_and_cancel_keep_current_file:
  assumes "collision env s"
    and "duplicate_action (strip (name_entry s)) (current_file s) s = Some (a, s1)"
    and "a = Some ''rename_again'' \<or> a = None"
  shows "rename_current env s = Returns s1
    \<and> fs s1 = fs s \<and> pdf_files s1 = pdf_files s \<and> current_index s1 = current_index s
    \<and> doc s1 = doc s \<and> folder s1 = folder s
    \<and> (events s1 = events s
        \<or> events s1 = events s @ [DuplicateDialog (strip (name_entry s)) (current_file s)])"
proof -
  have "rename_current env s = Returns s1"
    using assms by (auto simp: rename_current_collision)
  then show ?thesis
    using duplicate_action_frame [OF assms(2)] by simp
qed

theorem retry_and_cancel_keep_current_file_witness:
  "collision mem_env
     ((viewing ''/d'' [''a.pdf'', ''x.pdf''] [(''/d/a.pdf'', True), (''/d/x.pdf'', True)]
         [CHR ''x'', CHR 0xA0])
        \<lparr>dialogs := [(None, True)]\<rparr>)
   \<and> duplicate_action ''x'' ''a.pdf''
       ((viewing ''/d'' [''a.pdf'', ''x.pdf''] [(''/d/a.pdf'', True), (''/d/x.pdf'', True)]
           [CHR ''x'', CHR 0xA0])
          \<lparr>dialogs := [(None, True)]\<rparr>)
     = Some (None,
         (viewing ''/d'' [''a.pdf'', ''x.pdf''] [(''/d/a.pdf'', True), (''/d/x.pdf'', True)]
            [CHR ''x'', CHR 0xA0])
           \<lparr>events := [DuplicateDialog ''x'' ''a.pdf'']\<rparr>)
   \<and> rename_current mem_env
       ((viewing ''/d'' [''a.pdf'', ''x.pdf''] [(''/d/a.pdf'', True), (''/d/x.pdf'', True)]
           [CHR ''x'', CHR 0xA0])
          \<lparr>dialogs := [(None, True)]\<rparr>)
     = Returns
         ((viewing ''/d'' [''a.pdf'', ''x.pdf''] [(''/d/a.pdf'', True), (''/d/x.pdf'', True)]
             [CHR ''x'', CHR 0xA0])
           \<lparr>events := [DuplicateDialog ''x'' ''a.pdf'']\<rparr>)"
proof -
  let ?s = "(viewing ''/d'' [''a.pdf'', ''x.pdf''] [(''/d/a.pdf'', True), (''/d/x.pdf'', True)]
         [CHR ''x'', CHR 0xA0])
        \<lparr>dialogs := [(None, True)]\<rparr>"
  let ?s1 = "(viewing ''/d'' [''a.pdf'', ''x.pdf''] [(''/d/a.pdf'', True), (''/d/x.pdf'', True)]
            [CHR ''x'', CHR 0xA0])
           \<lparr>events := [DuplicateDialog ''x'' ''a.pdf'']\<rparr>"
  have c: "collision mem_env ?s"
    by code_simp
  have d: "duplicate_action (strip (name_entry ?s)) (current_file ?s) ?s = Some (None, ?s1)"
    by code_simp
  have e: "strip (name_entry ?s) = ''x''" "current_file ?s = ''a.pdf''"
    by code_simp+
  show ?thesis
    using c d e retry_and_cancel_keep_current_file [OF c d] by simp
qed

subsection \<open>Selecting a folder\<close>

lemma find_pdf_files_fs:
  "fs s' = fs s \<Longrightarrow> fst (find_pdf_files env d s') = fst (find_pdf_files env d s)"
  by (simp add: find_pdf_files_def split: sum.splits os_error.splits)

lemma find_pdf_files_snd_fields [simp]:
  "folder (snd (find_pdf_files env d s)) = folder s"
  "pdf_files (snd (find_pdf_files env d s)) = pdf_files s"
  "current_index (snd (find_pdf_files env d s)) = current_index s"
  "doc (snd (find_pdf_files env d s)) = doc s"
  "fs (snd (find_pdf_files env d s)) = fs s"
  "duplicate_handling_choice (snd (find_pdf_files env d s)) = duplicate_handling_choice s"
  "dialogs (snd (find_pdf_files env d s)) = dialogs s"
  by (simp_all add: find_pdf_files_def showerror_def split: sum.splits os_error.splits)

text \<open>
  Claim C8, as the code has it. When the folder dialog returns a non-empty path \<open>d\<close>:
  if \<open>d\<close> differs from the current folder, or no file is loaded, and the scan of \<open>d\<close>
  finds at least one PDF, then the selection succeeds with the folder replaced by \<open>d\<close>, the
  file list replaced by the files scanned and the cursor at 0; if \<open>d\<close> is the current
  folder and files are loaded, the selection succeeds without a scan, and the folder, the
  file list and the cursor stay as they were (lines 474 to 476).
\<close>

theorem folder_change_rescans_unless_same:
  assumes "directories s = d # rest" and "d \<noteq> []"
  shows "((d \<noteq> folder s \<or> pdf_files s = []) \<and> fst (find_pdf_files env d s) \<noteq> [] \<longrightarrow>
           (\<exists>s'. select_and_load_new_folder_core env s = Returns (True, s')
              \<and> folder s' = d \<and> pdf_files s' = fst (find_pdf_files env d s)
              \<and> current_index s' = 0))
       \<and> (d = folder s \<and> pdf_files s \<noteq> [] \<longrightarrow>
           (\<exists>s'. select_and_load_new_folder_core env s = Returns (True, s')
              \<and> folder s' = folder s \<and> pdf_files s' = pdf_files s
              \<and> current_index s' = current_index s))"
proof -
  let ?s1 = "emit (AskDirectory (folder s)) (s\<lparr>directories := rest\<rparr>)"
  have ask: "askdirectory (folder s) s = Some (d, ?s1)"
    using assms(1) by (simp add: askdirectory_def)
  have lst: "fst (find_pdf_files env d ?s1) = fst (find_pdf_files env d s)"
    by (rule find_pdf_files_fs) simp
  show ?thesis
    using assms(2) ask lst
    by (subst select_and_load_new_folder_core.simps,
        subst (2) select_and_load_new_folder_core.simps)
       (auto simp: showinfo_def split: prod.splits)
qed

theorem folder_change_rescans_unless_same_witness:
  "directories ((start ''/d'' [''a.pdf''] [(''/d/a.pdf'', True), (''/e/B.PDF'', True), (''/e/notes.txt'', True)])
        \<lparr>directories := [''/e'']\<rparr>) = [''/e'']
   \<and> ''/e'' \<noteq> []
   \<and> ''/e'' \<noteq> folder ((start ''/d'' [''a.pdf''] [(''/d/a.pdf'', True), (''/e/B.PDF'', True), (''/e/notes.txt'', True)])
        \<lparr>directories := [''/e'']\<rparr>)
   \<and> fst (find_pdf_files mem_env ''/e''
        ((start ''/d'' [''a.pdf''] [(''/d/a.pdf'', True), (''/e/B.PDF'', True), (''/e/notes.txt'', True)])
        \<lparr>directories := [''/e'']\<rparr>)) = [''B.PDF'']
   \<and> (\<exists>s'. select_and_load_new_folder_core mem_env
          ((start ''/d'' [''a.pdf''] [(''/d/a.pdf'', True), (''/e/B.PDF'', True), (''/e/notes.txt'', True)])
        \<lparr>directories := [''/e'']\<rparr>) = Returns (True, s')
        \<and> folder s' = ''/e'' \<and> pdf_files s' = [''B.PDF''] \<and> current_index s' = 0)"
proof -
  let ?s = "(start ''/d'' [''a.pdf''] [(''/d/a.pdf'', True), (''/e/B.PDF'', True), (''/e/notes.txt'', True)])
        \<lparr>directories := [''/e'']\<rparr>"
  have d: "directories ?s = [''/e'']" and f: "''/e'' \<noteq> folder ?s"
    by (simp_all add: start_def)
  have l: "fst (find_pdf_files mem_env ''/e'' ?s) = [''B.PDF'']"
    by code_simp
  show ?thesis
    using folder_change_rescans_unless_same [OF d, of mem_env] d f l by simp
qed

text \<open>
  The claim as stated fails for the current folder: with \<^verbatim>\<open>a.pdf\<close> and \<^verbatim>\<open>b.pdf\<close> loaded from
  \<^verbatim>\<open>/d\<close>, the cursor at 1 and a third file \<^verbatim>\<open>c.pdf\<close> on disk, selecting \<^verbatim>\<open>/d\<close> again succeeds
  and leaves the cursor at 1 and the list without \<^verbatim>\<open>c.pdf\<close>, which a scan would find.
\<close>

theorem same_folder_is_not_rescanned:
  "select_and_load_new_folder_core mem_env
     ((start ''/d'' [''a.pdf'', ''b.pdf'']
         [(''/d/a.pdf'', True), (''/d/b.pdf'', True), (''/d/c.pdf'', True)])
        \<lparr>current_index := 1, directories := [''/d'']\<rparr>)
   = Returns (True,
       (start ''/d'' [''a.pdf'', ''b.pdf'']
         [(''/d/a.pdf'', True), (''/d/b.pdf'', True), (''/d/c.pdf'', True)])
        \<lparr>current_index := 1,
         events := [AskDirectory ''/d'',
                    ShowInfo ''Info'' ''The selected folder is already the current folder.'']\<rparr>)
   \<and> fst (find_pdf_files mem_env ''/d''
       ((start ''/d'' [''a.pdf'', ''b.pdf'']
         [(''/d/a.pdf'', True), (''/d/b.pdf'', True), (''/d/c.pdf'', True)])
        \<lparr>current_index := 1, directories := [''/d'']\<rparr>))
     = [''a.pdf'', ''b.pdf'', ''c.pdf'']"
  by (simp add: select_and_load_new_folder_core.simps mem_defs rename_defs scan_defs)

subsection \<open>Add numbering\<close>

lemma digit_value_digit_char: "d < 10 \<Longrightarrow> digit_value (digit_char d) = d"
  by (simp add: digit_value_def digit_char_def)

lemma read_nat_snoc: "read_nat (cs @ [c]) = 10 * read_nat cs + digit_value c"
  by (simp add: read_nat_def)

lemma read_nat_str_nat: "read_nat (str_nat n) = n"
proof (induction n rule: str_nat.induct)
  case (1 n)
  show ?case
  proof (cases "n < 10")
    case True
    then show ?thesis
      by (subst str_nat.simps) (simp add: read_nat_def digit_value_digit_char)
  next
    case False
    then have "read_nat (str_nat n) = 10 * read_nat (str_nat (n div 10)) + n mod 10"
      by (subst str_nat.simps) (simp add: read_nat_snoc digit_value_digit_char)
    with False "1.IH" show ?thesis by simp
  qed
qed

lemma str_int_inj: "0 \<le> a \<Longrightarrow> 0 \<le> b \<Longrightarrow> str_int a = str_int b \<Longrightarrow> a = b"
proof -
  assume a: "0 \<le> a" and b: "0 \<le> b" and eq: "str_int a = str_int b"
  then have "read_nat (str_nat (nat a)) = read_nat (str_nat (nat b))"
    by (simp add: str_int_def)
  then have "nat a = nat b" by (simp add: read_nat_str_nat)
  with a b show "a = b" by simp
qed

lemma numbered_candidate_inj:
  assumes "inj_on (path_join env dir) {base @ ''('' @ str_int k @ '')'' @ ext |k. 1 \<le> k}"
    and "1 \<le> a" and "1 \<le> b"
    and "numbered_candidate env dir base ext a = numbered_candidate env dir base ext b"
  shows "a = b"
proof -
  let ?name = "\<lambda>k. base @ ''('' @ str_int k @ '')'' @ ext"
  have "?name a \<in> {?name k |k. 1 \<le> k}" "?name b \<in> {?name k |k. 1 \<le> k}"
    using assms(2,3) by blast+
  with assms(1,4) have "?name a = ?name b"
    by (auto simp: numbered_candidate_def dest: inj_onD)
  then have "str_int a @ ('')'' @ ext) = str_int b @ ('')'' @ ext)" by simp
  then have "str_int a = str_int b" by (simp only: append_same_eq)
  with assms(2,3) show ?thesis by (intro str_int_inj) auto
qed




text \<open>
  A free counter exists whenever finitely many paths exist and \<^verbatim>\<open>os.path.join\<close> sends the
  numbered names \<^verbatim>\<open>base(1)ext\<close>, \<^verbatim>\<open>base(2)ext\<close>, ... of one base name to distinct paths.
\<close>

lemma free_counter_exists:
  assumes fin: "finite {p. path_exists env fsys p}"
    and inj: "inj_on (path_join env dir) {base @ ''('' @ str_int k @ '')'' @ ext |k. 1 \<le> k}"
  shows "\<exists>n\<ge>1. \<not> path_exists env fsys (numbered_candidate env dir base ext n)"
proof (rule ccontr)
  assume "\<not> ?thesis"
  then have all: "\<forall>n\<ge>1. path_exists env fsys (numbered_candidate env dir base ext n)" by blast
  have "inj_on (numbered_candidate env dir base ext) {1..}"
    by (rule inj_onI) (auto dest: numbered_candidate_inj [OF inj, rotated 2])
  moreover have "numbered_candidate env dir base ext ` {1..} \<subseteq> {p. path_exists env fsys p}"
    using all by auto
  ultimately have "finite ({1..} :: int set)"
    using fin by (meson finite_subset finite_imageD)
  then show False by (simp add: infinite_Ici)
qed



subsection \<open>Ordered events\<close>

lemma handles_ok_append:
  "handles_ok h (es @ gs) = (handles_ok h es \<and> handles_ok (handle_after h es) gs)"
  by (induction h es rule: handles_ok.induct) auto

lemma handle_after_append:
  "handle_after h (es @ gs) = handle_after (handle_after h es) gs"
  by (induction h es rule: handle_after.induct) auto

lemma loads_only_ordered: "loads_only s s' \<Longrightarrow> ordered s s'"
  by (auto simp: loads_only_def ordered_def)

lemma ordered_refl: "ordered s s"
  by (simp add: ordered_def)

lemma ordered_trans: "ordered s s1 \<Longrightarrow> ordered s1 s2 \<Longrightarrow> ordered s s2"
  unfolding ordered_def
  by (metis append.assoc handles_ok_append handle_after_append)

lemma loads_only_refl: "loads_only s s"
  by (simp add: loads_only_def)

lemma loads_only_trans:
  assumes "loads_only s s1" and "loads_only s1 s2"
  shows "loads_only s s2"
proof -
  from assms(1) obtain es where es:
    "events s1 = events s @ es" "handles_ok (doc s) es" "handle_after (doc s) es = doc s1"
    "list_all plain es"
    by (auto simp: loads_only_def)
  from assms(2) obtain gs where gs:
    "events s2 = events s1 @ gs" "handles_ok (doc s1) gs" "handle_after (doc s1) gs = doc s2"
    "list_all plain gs"
    by (auto simp: loads_only_def)
  have "events s2 = events s @ (es @ gs)" "handles_ok (doc s) (es @ gs)"
    "handle_after (doc s) (es @ gs) = doc s2" "list_all plain (es @ gs)"
    using es gs by (simp_all add: handles_ok_append handle_after_append)
  moreover have "fs s2 = fs s" "duplicate_handling_choice s2 = duplicate_handling_choice s"
    "dialogs s2 = dialogs s"
    using assms by (simp_all add: loads_only_def)
  ultimately show ?thesis
    unfolding loads_only_def by (intro conjI exI [of _ "es @ gs"])
qed

lemma loads_only_updates [simp]:
  "loads_only s (s'\<lparr>folder := a\<rparr>) = loads_only s s'"
  "loads_only s (s'\<lparr>pdf_files := b\<rparr>) = loads_only s s'"
  "loads_only s (s'\<lparr>current_index := c\<rparr>) = loads_only s s'"
  "loads_only s (s'\<lparr>first_load_done := d\<rparr>) = loads_only s s'"
  "loads_only s (s'\<lparr>name_entry := e\<rparr>) = loads_only s s'"
  "loads_only s (s'\<lparr>exited := f\<rparr>) = loads_only s s'"
  "loads_only s (s'\<lparr>directories := g\<rparr>) = loads_only s s'"
  "loads_only s (s'\<lparr>yesnos := h\<rparr>) = loads_only s s'"
  by (simp_all add: loads_only_def)

lemma loads_only_updates_left [simp]:
  "loads_only (s\<lparr>folder := a\<rparr>) s' = loads_only s s'"
  "loads_only (s\<lparr>pdf_files := b\<rparr>) s' = loads_only s s'"
  "loads_only (s\<lparr>current_index := c\<rparr>) s' = loads_only s s'"
  "loads_only (s\<lparr>first_load_done := d\<rparr>) s' = loads_only s s'"
  "loads_only (s\<lparr>name_entry := e\<rparr>) s' = loads_only s s'"
  "loads_only (s\<lparr>exited := f\<rparr>) s' = loads_only s s'"
  "loads_only (s\<lparr>directories := g\<rparr>) s' = loads_only s s'"
  "loads_only (s\<lparr>yesnos := h\<rparr>) s' = loads_only s s'"
  by (simp_all add: loads_only_def)

lemma loads_only_emit: "message e \<Longrightarrow> loads_only s (emit e s)"
  by (cases e) (auto simp: loads_only_def)

lemma loads_only_showinfo: "loads_only s (showinfo t m s)"
  by (simp add: showinfo_def loads_only_emit)

lemma loads_only_showerror: "loads_only s (showerror t m s)"
  by (simp add: showerror_def loads_only_emit)

lemma loads_only_exit_app: "loads_only s (exit_app s)"
  by (simp add: exit_app_def loads_only_emit)

lemma loads_only_close: "loads_only s (close_current_doc s)"
  by (auto simp: close_current_doc_def loads_only_def emit_def split: option.splits)

lemma loads_only_open:
  "doc s = None \<Longrightarrow> loads_only s ((emit (DocOpen p) s)\<lparr>doc := Some p\<rparr>)"
  by (auto simp: loads_only_def emit_def)

lemma loads_only_askyesno: "askyesno t m s = Some (r, s') \<Longrightarrow> loads_only s s'"
  by (auto simp: askyesno_def loads_only_def emit_def split: list.splits)

lemma loads_only_askdirectory: "askdirectory d s = Some (r, s') \<Longrightarrow> loads_only s s'"
  by (auto simp: askdirectory_def loads_only_def emit_def split: list.splits)

lemma loads_only_find_pdf_files: "loads_only s (snd (find_pdf_files env d s))"
  by (auto simp: find_pdf_files_def loads_only_refl loads_only_showerror
        split: sum.splits os_error.splits)

subsection \<open>Loading changes neither the filesystem nor the remembered choice\<close>

lemma select_loads_only:
  "loads_only s (selection_state (select_and_load_new_folder_core env s))"
proof (induction env s rule: select_and_load_new_folder_core.induct)
  case (1 env s)
  show ?case
  proof (cases "askdirectory (folder s) s")
    case None
    then show ?thesis
      by (subst select_and_load_new_folder_core.simps)
         (simp add: selection_state_def loads_only_refl)
  next
    case (Some a)
    obtain new_folder s1 where a: "a = (new_folder, s1)" by (cases a)
    have ask: "askdirectory (folder s) s = Some (new_folder, s1)"
      using Some a by simp
    have l1: "loads_only s s1"
      using ask by (rule loads_only_askdirectory)
    obtain cf s2 where fnd: "find_pdf_files env new_folder s1 = (cf, s2)"
      by (cases "find_pdf_files env new_folder s1")
    have l2: "loads_only s1 s2"
      using loads_only_find_pdf_files [of s1 env new_folder] fnd by simp
    show ?thesis
    proof (cases "new_folder = []")
      case True
      show ?thesis
      proof (cases "askyesno TITLE_CONFIRM_EXIT
          ''No folder was selected. Do you want to exit the application?'' s1")
        case None
        with ask True l1 show ?thesis
          by (subst select_and_load_new_folder_core.simps) (simp add: selection_state_def)
      next
        case (Some b)
        obtain res s3 where b: "b = (res, s3)" by (cases b)
        with Some have "loads_only s1 s3" by (auto intro: loads_only_askyesno)
        with l1 have "loads_only s s3" by (rule loads_only_trans)
        with ask True Some b show ?thesis
          by (subst select_and_load_new_folder_core.simps) (simp add: selection_state_def)
      qed
    next
      case nonempty: False
      show ?thesis
      proof (cases "new_folder = folder s1 \<and> pdf_files s1 \<noteq> []")
        case True
        have "loads_only s (showinfo TITLE_INFO
            ''The selected folder is already the current folder.'' s1)"
          using l1 loads_only_showinfo by (rule loads_only_trans)
        with ask nonempty True show ?thesis
          by (subst select_and_load_new_folder_core.simps) (simp add: selection_state_def)
      next
        case other: False
        show ?thesis
        proof (cases "cf = []")
          case True
          let ?s3 = "showerror TITLE_ERROR
               (''No PDF files found in '' @ quote @ new_folder @ quote
                  @ ''. Please choose another folder.'') s2"
          have ih: "loads_only ?s3 (selection_state (select_and_load_new_folder_core env ?s3))"
            using "1.IH" [OF ask refl nonempty other fnd [symmetric]] True by simp
          have "loads_only s ?s3"
            using l1 l2 loads_only_showerror by (blast intro: loads_only_trans)
          then have "loads_only s (selection_state (select_and_load_new_folder_core env ?s3))"
            using ih by (rule loads_only_trans)
          with ask nonempty other fnd True show ?thesis
            by (subst select_and_load_new_folder_core.simps) auto
        next
          case False
          have "loads_only s (close_current_doc s2)"
            using l1 l2 loads_only_close by (blast intro: loads_only_trans)
          with ask nonempty other fnd False show ?thesis
            by (subst select_and_load_new_folder_core.simps) (auto simp: selection_state_def)
        qed
      qed
    qed
  qed
qed

lemma select_returns_loads_only:
  "select_and_load_new_folder_core env s = Returns (ok, s') \<Longrightarrow> loads_only s s'"
  "select_and_load_new_folder_core env s = NoReturn s' \<Longrightarrow> loads_only s s'"
  "select_and_load_new_folder_core env s = Raises e s' \<Longrightarrow> loads_only s s'"
  using select_loads_only [of s env] by (simp_all add: selection_state_def)

lemma loading_loads_only:
  fixes env env' env'' :: "'fs os_env"
  shows load_file_loads_only: "loads_only s0 (state_of (load_file env s0 index))"
  and skip_current_loads_only: "loads_only t0 (state_of (skip_current env' t0))"
  and change_folder_loads_only: "loads_only u (state_of (change_folder env'' u))"
proof (induction env s0 index and env' t0 and env'' u
    rule: load_file_skip_current_change_folder.induct)
  case (1 env s0 index)
  let ?s = "close_current_doc s0"
  have l0: "loads_only s0 ?s" by (rule loads_only_close)
  show ?case
  proof (cases "index \<ge> int (length (pdf_files ?s))")
    case True
    show ?thesis
    proof (cases "pdf_files ?s = []")
      case empty: True
      let ?s1 = "showinfo TITLE_INFO ''No PDF files to process.'' ?s"
      have l1: "loads_only s0 ?s1"
        using l0 loads_only_showinfo by (rule loads_only_trans)
      show ?thesis
      proof (cases "select_and_load_new_folder_core env ?s1")
        case (Returns a)
        obtain ok s2 where a: "a = (ok, s2)" by (cases a)
        have l2: "loads_only s0 s2"
          using l1 select_returns_loads_only(1) [of env ?s1 ok s2] Returns a
          by (auto intro: loads_only_trans)
        show ?thesis
        proof (cases ok)
          case True
          have ret: "select_and_load_new_folder_core env ?s1 = Returns (ok, s2)"
            using Returns a by simp
          have "loads_only s2 (state_of (load_file env s2 (current_index s2)))"
            using "1.IH"(1) [OF refl \<open>index \<ge> int (length (pdf_files ?s))\<close> empty ret refl True] .
          with l2 have "loads_only s0 (state_of (load_file env s2 (current_index s2)))"
            by (rule loads_only_trans)
          with True empty Returns a \<open>index \<ge> int (length (pdf_files ?s))\<close> show ?thesis
            by (subst load_file.simps) (simp add: Let_def)
        next
          case False
          have "loads_only s0 (exit_app s2)"
            using l2 loads_only_exit_app by (rule loads_only_trans)
          with False empty Returns a \<open>index \<ge> int (length (pdf_files ?s))\<close> show ?thesis
            by (subst load_file.simps) (simp add: Let_def state_of_def)
        qed
      next
        case (NoReturn s2)
        have "loads_only s0 s2"
          using l1 select_returns_loads_only(2) [OF NoReturn] by (rule loads_only_trans)
        with NoReturn empty True show ?thesis
          by (subst load_file.simps) (simp add: Let_def state_of_def)
      next
        case (Raises e s2)
        have "loads_only s0 s2"
          using l1 select_returns_loads_only(3) [OF Raises] by (rule loads_only_trans)
        with Raises empty True show ?thesis
          by (subst load_file.simps) (simp add: Let_def state_of_def)
      qed
    next
      case nonempty: False
      show ?thesis
      proof (cases "askyesno TITLE_FINISHED
          ''All files processed. Do you want to exit the program?'' ?s")
        case None
        with nonempty True l0 show ?thesis
          by (subst load_file.simps) (simp add: Let_def state_of_def)
      next
        case (Some a)
        obtain result s1 where a: "a = (result, s1)" by (cases a)
        have l1: "loads_only s0 s1"
          using l0 loads_only_askyesno Some a by (blast intro: loads_only_trans)
        show ?thesis
        proof (cases result)
          case True
          have "loads_only s0 (exit_app s1)"
            using l1 loads_only_exit_app by (rule loads_only_trans)
          with True Some a nonempty \<open>index \<ge> int (length (pdf_files ?s))\<close> show ?thesis
            by (subst load_file.simps) (simp add: Let_def state_of_def)
        next
          case False
          have ask: "askyesno TITLE_FINISHED
              ''All files processed. Do you want to exit the program?'' ?s = Some (result, s1)"
            using Some a by simp
          have "loads_only s1 (state_of (change_folder env s1))"
            using "1.IH"(2) [OF refl \<open>index \<ge> int (length (pdf_files ?s))\<close> nonempty ask refl False] .
          with l1 have "loads_only s0 (state_of (change_folder env s1))"
            by (rule loads_only_trans)
          with False Some a nonempty \<open>index \<ge> int (length (pdf_files ?s))\<close> show ?thesis
            by (subst load_file.simps) (simp add: Let_def)
        qed
      qed
    qed
  next
    case inrange: False
    show ?thesis
    proof (cases "index < - int (length (pdf_files ?s))")
      case True
      with inrange l0 show ?thesis
        by (subst load_file.simps) (simp add: Let_def state_of_def)
    next
      case False
      let ?current_file = "pdf_files ?s !
          nat (if index < 0 then int (length (pdf_files ?s)) + index else index)"
      let ?pdf_path = "path_join env (folder ?s) ?current_file"
      show ?thesis
      proof (cases "fitz_open env (fs ?s) ?pdf_path")
        case (Inl e)
        let ?s1 = "showerror TITLE_ERROR
            (''Failed to open PDF: '' @ ?current_file @ newline @ e) ?s"
        have "loads_only ?s1 (state_of (skip_current env ?s1))"
          using "1.IH"(3) [OF refl inrange False refl refl Inl] .
        moreover have "loads_only s0 ?s1"
          using l0 loads_only_showerror by (rule loads_only_trans)
        ultimately have "loads_only s0 (state_of (skip_current env ?s1))"
          by (blast intro: loads_only_trans)
        with inrange False Inl show ?thesis
          by (subst load_file.simps) (simp add: Let_def)
      next
        case (Inr u)
        have "loads_only ?s ((emit (DocOpen ?pdf_path) ?s)\<lparr>doc := Some ?pdf_path\<rparr>)"
          by (rule loads_only_open) simp
        with l0 have "loads_only s0 ((emit (DocOpen ?pdf_path) ?s)\<lparr>doc := Some ?pdf_path\<rparr>)"
          by (rule loads_only_trans)
        with inrange False Inr show ?thesis
          by (subst load_file.simps) (simp add: Let_def state_of_def)
      qed
    qed
  qed
next
  case (2 env s0)
  let ?s1 = "(close_current_doc s0)\<lparr>current_index := current_index (close_current_doc s0) + 1\<rparr>"
  have "loads_only ?s1 (state_of (load_file env ?s1 (current_index ?s1)))"
    using "2.IH" [OF refl refl] by simp
  then have "loads_only (close_current_doc s0) (state_of (load_file env ?s1 (current_index ?s1)))"
    by simp
  with loads_only_close have "loads_only s0 (state_of (load_file env ?s1 (current_index ?s1)))"
    by (rule loads_only_trans)
  then show ?case
    by (subst skip_current.simps) (simp add: Let_def)
next
  case (3 env s)
  show ?case
  proof (cases "select_and_load_new_folder_core env s")
    case (Returns a)
    obtain ok s1 where a: "a = (ok, s1)" by (cases a)
    have l1: "loads_only s s1"
      using select_returns_loads_only(1) [of env s ok s1] Returns a by simp
    show ?thesis
    proof (cases ok)
      case True
      have ret: "select_and_load_new_folder_core env s = Returns (ok, s1)"
        using Returns a by simp
      have "loads_only s1 (state_of (load_file env s1 (current_index s1)))"
        using "3.IH" [OF ret refl True] .
      with l1 have "loads_only s (state_of (load_file env s1 (current_index s1)))"
        by (rule loads_only_trans)
      with True Returns a show ?thesis
        by (subst change_folder.simps) simp
    next
      case False
      have "loads_only s (showinfo TITLE_INFO
          ''Folder selection cancelled or failed. Continuing with previous state if any.'' s1)"
        using l1 loads_only_showinfo by (rule loads_only_trans)
      with False Returns a show ?thesis
        by (subst change_folder.simps) (simp add: state_of_def)
    qed
  next
    case (NoReturn s1)
    with select_returns_loads_only(2) [OF NoReturn] show ?thesis
      by (subst change_folder.simps) (simp add: state_of_def)
  next
    case (Raises e s1)
    with select_returns_loads_only(3) [OF Raises] show ?thesis
      by (subst change_folder.simps) (simp add: state_of_def)
  qed
qed

subsection \<open>The rename step keeps the choice and the order\<close>

lemma keeps_refl: "keeps s s"
  by (simp add: keeps_def ordered_refl)

lemma keeps_trans: "keeps s s1 \<Longrightarrow> keeps s1 s2 \<Longrightarrow> keeps s s2"
  by (auto simp: keeps_def intro: ordered_trans)

lemma loads_only_keeps: "loads_only s s' \<Longrightarrow> keeps s s'"
  by (simp add: keeps_def loads_only_ordered) (simp add: loads_only_def)

lemma ordered_updates [simp]:
  "ordered s (s'\<lparr>folder := a\<rparr>) = ordered s s'"
  "ordered s (s'\<lparr>pdf_files := b\<rparr>) = ordered s s'"
  "ordered s (s'\<lparr>current_index := c\<rparr>) = ordered s s'"
  "ordered s (s'\<lparr>name_entry := e\<rparr>) = ordered s s'"
  "ordered s (s'\<lparr>fs := f\<rparr>) = ordered s s'"
  "ordered s (s'\<lparr>duplicate_handling_choice := g\<rparr>) = ordered s s'"
  "ordered s (s'\<lparr>dialogs := h\<rparr>) = ordered s s'"
  "ordered (s\<lparr>folder := a\<rparr>) s' = ordered s s'"
  "ordered (s\<lparr>pdf_files := b\<rparr>) s' = ordered s s'"
  "ordered (s\<lparr>current_index := c\<rparr>) s' = ordered s s'"
  "ordered (s\<lparr>name_entry := e\<rparr>) s' = ordered s s'"
  "ordered (s\<lparr>fs := f\<rparr>) s' = ordered s s'"
  "ordered (s\<lparr>duplicate_handling_choice := g\<rparr>) s' = ordered s s'"
  "ordered (s\<lparr>dialogs := h\<rparr>) s' = ordered s s'"
  by (simp_all add: ordered_def)

lemma keeps_updates [simp]:
  "keeps s (s'\<lparr>pdf_files := b\<rparr>) = keeps s s'"
  "keeps s (s'\<lparr>current_index := c\<rparr>) = keeps s s'"
  "keeps s (s'\<lparr>name_entry := e\<rparr>) = keeps s s'"
  "keeps s (s'\<lparr>fs := f\<rparr>) = keeps s s'"
  "keeps (s\<lparr>pdf_files := b\<rparr>) s' = keeps s s'"
  "keeps (s\<lparr>current_index := c\<rparr>) s' = keeps s s'"
  "keeps (s\<lparr>name_entry := e\<rparr>) s' = keeps s s'"
  "keeps (s\<lparr>fs := f\<rparr>) s' = keeps s s'"
  by (simp_all add: keeps_def)

lemma keeps_rename_event:
  "doc s = None \<Longrightarrow> keeps s (emit (OsRename a b) s)"
  by (simp add: keeps_def ordered_def)

lemma keeps_load_file: "keeps s (state_of (load_file env s i))"
  by (rule loads_only_keeps) (rule load_file_loads_only)

lemma keeps_rename_failed: "keeps s (state_of (rename_failed env cf new e s))"
proof -
  let ?s1 = "showerror TITLE_ERROR
          (''Error renaming '' @ quote @ cf @ quote @ '' to '' @ quote
             @ path_basename env new @ quote @ '':'' @ newline @ e) s"
  have "keeps s ?s1" by (rule loads_only_keeps) (rule loads_only_showerror)
  moreover have "keeps ?s1 (state_of (load_file env ?s1 (current_index s)))"
    by (rule keeps_load_file)
  ultimately show ?thesis
    unfolding rename_failed_def by (rule keeps_trans)
qed

lemma keeps_catch:
  assumes "keeps s0 (state_of r)"
    and "\<And>e s3. keeps s0 s3 \<Longrightarrow> keeps s0 (state_of (h e s3))"
  shows "keeps s0 (state_of (case r of Raises e s3 \<Rightarrow> h e s3 | r' \<Rightarrow> r'))"
  using assms by (cases r) (simp_all add: state_of_def)

lemma keeps_rename_attempt: "keeps s0 (state_of (rename_attempt env cf old new s0))"
proof -
  let ?s = "emit (OsRename old new) (close_current_doc s0)"
  have k0: "keeps s0 ?s"
    using loads_only_keeps [OF loads_only_close] keeps_rename_event
    by (rule keeps_trans) simp
  show ?thesis
  proof (cases "os_rename env (fs ?s) old new")
    case (Inl e)
    have "keeps s0 (state_of (rename_failed env cf new e ?s))"
      using k0 keeps_rename_failed by (rule keeps_trans)
    with Inl show ?thesis
      by (simp add: rename_attempt_def Let_def)
  next
    case (Inr fs')
    let ?n = "int (length (pdf_files ?s))" and ?i = "current_index ?s"
    show ?thesis
    proof (cases "?i \<ge> ?n \<or> ?i < - ?n")
      case True
      have "keeps ?s (?s\<lparr>fs := fs'\<rparr>)" by (simp add: keeps_refl)
      with k0 have "keeps s0 (?s\<lparr>fs := fs'\<rparr>)" by (rule keeps_trans)
      then have "keeps s0 (state_of (rename_failed env cf new
          ''list assignment index out of range'' (?s\<lparr>fs := fs'\<rparr>)))"
        using keeps_rename_failed by (rule keeps_trans)
      with Inr True show ?thesis
        by (simp add: rename_attempt_def Let_def)
    next
      case False
      let ?s2 = "?s\<lparr>fs := fs',
          pdf_files := (pdf_files ?s)[nat (if ?i < 0 then ?n + ?i else ?i) := path_basename env new],
          current_index := ?i + 1\<rparr>"
      have k2: "keeps s0 ?s2" using k0 by simp
      have k3: "keeps s0 (state_of (load_file env ?s2 (?i + 1)))"
        using k2 keeps_load_file by (rule keeps_trans)
      have unfold: "rename_attempt env cf old new s0 =
          (case load_file env ?s2 (?i + 1) of
             Raises e s3 \<Rightarrow> rename_failed env cf new e s3
           | r \<Rightarrow> r)"
        using Inr False by (simp add: rename_attempt_def Let_def)
      show ?thesis
        unfolding unfold using k3
      proof (rule keeps_catch)
        fix e s3
        assume "keeps s0 s3"
        then show "keeps s0 (state_of (rename_failed env cf new e s3))"
          using keeps_rename_failed by (rule keeps_trans)
      qed
    qed
  qed
qed

subsection \<open>Every operation is a session step\<close>

lemma session_step_refl: "session_step s s"
  by (simp add: session_step_def ordered_refl)

lemma session_step_trans:
  "session_step s s1 \<Longrightarrow> session_step s1 s2 \<Longrightarrow> session_step s s2"
  unfolding session_step_def by (auto intro: ordered_trans)

lemma keeps_session_step: "keeps s s' \<Longrightarrow> session_step s s'"
  by (simp add: keeps_def session_step_def)

lemma loads_only_session_step: "loads_only s s' \<Longrightarrow> session_step s s'"
  by (rule keeps_session_step) (rule loads_only_keeps)

lemma duplicate_action_session_step:
  assumes "duplicate_action n f s = Some (a, s1)"
  shows "session_step s s1"
  using assms
  by (auto simp: duplicate_action_def duplicate_dialog_def session_step_def ordered_def
        truthy_def split: if_splits option.splits list.splits prod.splits)

lemma duplicate_action_remembered:
  "duplicate_handling_choice s \<noteq> Some ''ask'' \<Longrightarrow>
     duplicate_action n f s = Some (duplicate_handling_choice s, s)"
  by (simp add: duplicate_action_def)

lemma rename_current_session_step:
  "session_step s (state_of (rename_current env s))"
proof (cases "selected s")
  case False
  then show ?thesis
    by (simp add: rename_current_not_selected state_of_def loads_only_session_step
          loads_only_showinfo)
next
  case sel: True
  show ?thesis
  proof (cases "same_file env s")
    case True
    let ?s1 = "(close_current_doc s)\<lparr>current_index := current_index s + 1\<rparr>"
    have "loads_only s ?s1" by (simp add: loads_only_close)
    then have "loads_only s (state_of (load_file env ?s1 (current_index s + 1)))"
      using load_file_loads_only by (rule loads_only_trans)
    with sel True show ?thesis
      by (simp add: rename_current_same_file loads_only_session_step)
  next
    case differs: False
    show ?thesis
    proof (cases "path_exists env (fs s) (proposed_path env s)")
      case False
      with sel differs show ?thesis
        by (simp add: rename_current_free keeps_session_step keeps_rename_attempt)
    next
      case True
      with sel differs have col: "collision env s" by (simp add: collision_def)
      show ?thesis
      proof (cases "duplicate_action (strip (name_entry s)) (current_file s) s")
        case None
        with col show ?thesis
          by (simp add: rename_current_collision state_of_def session_step_refl)
      next
        case (Some r)
        obtain a s1 where r: "r = (a, s1)" by (cases r)
        have d: "duplicate_action (strip (name_entry s)) (current_file s) s = Some (a, s1)"
          using Some r by simp
        have st: "session_step s s1"
          using d by (rule duplicate_action_session_step)
        have att: "session_step s (state_of (rename_attempt env cf old p s1))" for cf old p
          using st keeps_session_step [OF keeps_rename_attempt] by (rule session_step_trans)
        have skp: "session_step s (state_of (skip_current env s1))"
          using st loads_only_session_step [OF skip_current_loads_only]
          by (rule session_step_trans)
        show ?thesis
          using st att skp
          by (simp add: rename_current_collision [OF col] d state_of_def
                split: option.splits)
      qed
    qed
  qed
qed

lemma perform_session_step: "session_step s (state_of (perform env a s))"
proof (cases a)
  case (TypeName t)
  then show ?thesis
    by (simp add: state_of_def session_step_def ordered_def)
next
  case Rename
  then show ?thesis by (simp add: rename_current_session_step)
next
  case Skip
  then show ?thesis
    by (simp add: loads_only_session_step skip_current_loads_only)
next
  case PrevFile
  have "loads_only s (state_of (prev_file env s))"
  proof (cases "current_index s > 0")
    case True
    have "loads_only s (s\<lparr>current_index := current_index s - 1\<rparr>)"
      by (simp add: loads_only_refl)
    then have "loads_only s (state_of (load_file env
        (s\<lparr>current_index := current_index s - 1\<rparr>) (current_index s - 1)))"
      using load_file_loads_only by (rule loads_only_trans)
    with True show ?thesis by (simp add: prev_file_def)
  next
    case False
    then show ?thesis
      by (simp add: prev_file_def state_of_def loads_only_showinfo)
  qed
  with PrevFile show ?thesis by (simp add: loads_only_session_step)
next
  case NextFile
  have "loads_only s (state_of (next_file env s))"
  proof (cases "current_index s < int (length (pdf_files s)) - 1")
    case True
    have "loads_only s (s\<lparr>current_index := current_index s + 1\<rparr>)"
      by (simp add: loads_only_refl)
    then have "loads_only s (state_of (load_file env
        (s\<lparr>current_index := current_index s + 1\<rparr>) (current_index s + 1)))"
      using load_file_loads_only by (rule loads_only_trans)
    with True show ?thesis by (simp add: next_file_def)
  next
    case False
    then show ?thesis
      by (simp add: next_file_def state_of_def loads_only_showinfo)
  qed
  with NextFile show ?thesis by (simp add: loads_only_session_step)
next
  case ChangeFolder
  then show ?thesis
    by (simp add: loads_only_session_step change_folder_loads_only)
qed

lemma run_session_step: "session_step s (state_of (run env acts s))"
proof (induction acts arbitrary: s)
  case Nil
  show ?case by (simp add: state_of_def session_step_refl)
next
  case (Cons a acts)
  have p: "session_step s (state_of (perform env a s))"
    by (rule perform_session_step)
  show ?case
  proof (cases "perform env a s")
    case (Returns s')
    with p have "session_step s s'" by (simp add: state_of_def)
    then have "session_step s (state_of (run env acts s'))"
      using Cons.IH by (rule session_step_trans)
    with Returns p show ?thesis by (simp add: state_of_def)
  next
    case (NoReturn s')
    with p show ?thesis by (simp add: state_of_def)
  next
    case (Raises e s')
    with p show ?thesis by (simp add: state_of_def)
  qed
qed

subsection \<open>The remembered duplicate choice\<close>

lemma loads_only_fields:
  "loads_only s s' \<Longrightarrow> duplicate_handling_choice s' = duplicate_handling_choice s"
  "loads_only s s' \<Longrightarrow> dialogs s' = dialogs s"
  by (simp_all add: loads_only_def)

lemma keeps_fields:
  "keeps s s' \<Longrightarrow> duplicate_handling_choice s' = duplicate_handling_choice s"
  "keeps s s' \<Longrightarrow> dialogs s' = dialogs s"
  by (simp_all add: keeps_def)

lemma button_action_cases:
  "button_action b = ''rename_again'' \<or> button_action b = ''add_numbering''
     \<or> button_action b = ''skip''"
  by (cases b) (simp_all add: button_action_def)

lemma duplicate_action_asks:
  assumes "duplicate_handling_choice s = Some ''ask''"
    and "dialogs s = (pressed, tick) # rest"
  shows "duplicate_action n f s =
     Some (map_option button_action pressed,
           (emit (DuplicateDialog n f) (s\<lparr>dialogs := rest\<rparr>))
             \<lparr>duplicate_handling_choice :=
                if tick \<and> pressed \<noteq> None then map_option button_action pressed
                else Some ''ask''\<rparr>)"
proof (cases pressed)
  case None
  with assms show ?thesis
    by (simp add: duplicate_action_def duplicate_dialog_def truthy_def emit_def)
next
  case (Some b)
  have "button_action b \<noteq> []"
    using button_action_cases [of b] by auto
  with Some assms show ?thesis
    by (simp add: duplicate_action_def duplicate_dialog_def truthy_def emit_def)
qed

lemma state_of_simps:
  "state_of (Returns s) = s" "state_of (NoReturn s) = s" "state_of (Raises e s) = s"
  by (simp_all add: state_of_def)

lemma rename_current_after_dialog:
  assumes col: "collision env s"
    and ask: "duplicate_handling_choice s = Some ''ask''"
    and ans: "dialogs s = (pressed, tick) # rest"
  shows "duplicate_handling_choice (state_of (rename_current env s))
           = (if tick \<and> pressed \<noteq> None then map_option button_action pressed
              else Some ''ask'')
     \<and> dialogs (state_of (rename_current env s)) = rest"
proof -
  define s1 where "s1 = (emit (DuplicateDialog (strip (name_entry s)) (current_file s))
                (s\<lparr>dialogs := rest\<rparr>))
             \<lparr>duplicate_handling_choice :=
                if tick \<and> pressed \<noteq> None then map_option button_action pressed
                else Some ''ask''\<rparr>"
  define c where "c = (if tick \<and> pressed \<noteq> None then map_option button_action pressed
              else Some ''ask'')"
  have d: "duplicate_action (strip (name_entry s)) (current_file s) s
        = Some (map_option button_action pressed, s1)"
    unfolding s1_def using ask ans by (rule duplicate_action_asks)
  have here: "duplicate_handling_choice s1 = c" "dialogs s1 = rest"
    by (simp_all add: s1_def c_def)
  have att: "duplicate_handling_choice (state_of (rename_attempt env cf old p s1)) = c"
      "dialogs (state_of (rename_attempt env cf old p s1)) = rest" for cf old p
    using keeps_fields [OF keeps_rename_attempt [of s1 env cf old p]] here by simp_all
  have skp: "duplicate_handling_choice (state_of (skip_current env s1)) = c"
      "dialogs (state_of (skip_current env s1)) = rest"
    using loads_only_fields [OF skip_current_loads_only [of s1 env]] here by simp_all
  have "duplicate_handling_choice (state_of (rename_current env s)) = c
     \<and> dialogs (state_of (rename_current env s)) = rest"
    unfolding rename_current_collision [OF col] d
    by (simp add: state_of_simps att skp here split: option.splits)
  then show ?thesis by (simp add: c_def)
qed

lemma run_rename_cases:
  "state_of (run env (Rename # acts) s) = state_of (rename_current env s)
   \<or> state_of (run env (Rename # acts) s)
       = state_of (run env acts (state_of (rename_current env s)))"
  by (cases "rename_current env s") (simp_all add: state_of_def)

text \<open>
  Claim C5. At a collision while the stored choice is \<^verbatim>\<open>"ask"\<close>, when the user presses a button
  of the duplicate dialog with the box ticked, the action of that button is stored; it is
  still stored at the end of any session that goes on from there, no further answer to the
  dialog is consumed, and at any collision then the action decided is the stored one, with
  the state as it was: the dialog is not shown. When the dialog is closed without a button,
  or the box is not ticked, the stored choice stays \<^verbatim>\<open>"ask"\<close>. Over any session from any state,
  a remembered choice (a stored value other than \<^verbatim>\<open>"ask"\<close>) is kept and applied in the same
  way, and a stored choice that is not \<^verbatim>\<open>None\<close> never becomes \<^verbatim>\<open>None\<close>.
\<close>

theorem remembered_choice_applies_without_prompt:
  "(collision env s \<and> duplicate_handling_choice s = Some ''ask''
      \<and> dialogs s = (Some b, True) # rest \<longrightarrow>
        duplicate_handling_choice (state_of (run env (Rename # acts) s)) = Some (button_action b)
      \<and> dialogs (state_of (run env (Rename # acts) s)) = rest
      \<and> duplicate_action n f (state_of (run env (Rename # acts) s))
          = Some (Some (button_action b), state_of (run env (Rename # acts) s)))
   \<and> (collision env s \<and> duplicate_handling_choice s = Some ''ask''
      \<and> dialogs s = (pressed, tick) # rest \<and> (pressed = None \<or> tick = False) \<longrightarrow>
        duplicate_handling_choice (state_of (rename_current env s)) = Some ''ask'')
   \<and> (duplicate_handling_choice s \<noteq> Some ''ask'' \<longrightarrow>
        duplicate_handling_choice (state_of (run env acts s)) = duplicate_handling_choice s
        \<and> dialogs (state_of (run env acts s)) = dialogs s
        \<and> duplicate_action n f (state_of (run env acts s))
            = Some (duplicate_handling_choice s, state_of (run env acts s)))
   \<and> (duplicate_handling_choice s \<noteq> None \<longrightarrow>
        duplicate_handling_choice (state_of (run env acts s)) \<noteq> None)"
proof (intro conjI impI)
  assume h: "collision env s \<and> duplicate_handling_choice s = Some ''ask''
      \<and> dialogs s = (Some b, True) # rest"
  let ?s' = "state_of (rename_current env s)"
  let ?t = "state_of (run env (Rename # acts) s)"
  have stored: "duplicate_handling_choice ?s' = Some (button_action b)" "dialogs ?s' = rest"
    using rename_current_after_dialog [of env s "Some b" True rest] h by simp_all
  have noask: "Some (button_action b) \<noteq> Some ''ask''"
    using button_action_cases [of b] by auto
  have "session_step ?s' ?t"
    using run_rename_cases [of env acts s] run_session_step [of ?s' env acts]
    by (auto simp: session_step_refl)
  with stored noask have t: "duplicate_handling_choice ?t = Some (button_action b)"
      "dialogs ?t = rest"
    by (auto simp: session_step_def)
  show "duplicate_handling_choice ?t = Some (button_action b)" by (rule t(1))
  show "dialogs ?t = rest" by (rule t(2))
  show "duplicate_action n f ?t = Some (Some (button_action b), ?t)"
    using duplicate_action_remembered [of ?t n f] t(1) noask by simp
next
  assume "collision env s \<and> duplicate_handling_choice s = Some ''ask''
      \<and> dialogs s = (pressed, tick) # rest \<and> (pressed = None \<or> tick = False)"
  then show "duplicate_handling_choice (state_of (rename_current env s)) = Some ''ask''"
    using rename_current_after_dialog [of env s pressed tick rest] by auto
next
  assume r: "duplicate_handling_choice s \<noteq> Some ''ask''"
  have st: "session_step s (state_of (run env acts s))"
    by (rule run_session_step)
  with r show "duplicate_handling_choice (state_of (run env acts s)) = duplicate_handling_choice s"
    and "dialogs (state_of (run env acts s)) = dialogs s"
    by (auto simp: session_step_def)
  with r show "duplicate_action n f (state_of (run env acts s))
            = Some (duplicate_handling_choice s, state_of (run env acts s))"
    using duplicate_action_remembered [of "state_of (run env acts s)" n f] by simp
next
  assume "duplicate_handling_choice s \<noteq> None"
  then show "duplicate_handling_choice (state_of (run env acts s)) \<noteq> None"
    using run_session_step [of s env acts] by (auto simp: session_step_def)
qed

lemma two_collisions_run:
  "state_of (run mem_env [Rename, TypeName ''x'', Rename] two_collisions)
   = two_collisions
       \<lparr>current_index := 2, doc := Some ''/d/x.pdf'', first_load_done := True,
        duplicate_handling_choice := Some ''skip'', name_entry := ''x'', dialogs := [],
        events := [DuplicateDialog ''x'' ''a.pdf'', DocClose ''/d/a.pdf'', DocOpen ''/d/b.pdf'',
                   DocClose ''/d/b.pdf'', DocOpen ''/d/x.pdf'']\<rparr>"
  by code_simp

lemma two_collisions_second:
  "collision mem_env (state_of (run mem_env [Rename, TypeName ''x''] two_collisions))"
  by code_simp

lemma two_collisions_first:
  "collision mem_env two_collisions"
  "duplicate_handling_choice two_collisions = Some ''ask''"
  "dialogs two_collisions = [(Some SkipButton, True)]"
  by code_simp+

lemma dismissed_first:
  "collision mem_env dismissed"
  "duplicate_handling_choice dismissed = Some ''ask''"
  "dialogs dismissed = [(None, True)]"
  by code_simp+

theorem remembered_choice_applies_without_prompt_witness:
  "collision mem_env two_collisions
   \<and> duplicate_handling_choice two_collisions = Some ''ask''
   \<and> dialogs two_collisions = [(Some SkipButton, True)]
   \<and> collision mem_env (state_of (run mem_env [Rename, TypeName ''x''] two_collisions))
   \<and> duplicate_handling_choice
        (state_of (run mem_env [Rename, TypeName ''x'', Rename] two_collisions)) = Some ''skip''
   \<and> dialogs (state_of (run mem_env [Rename, TypeName ''x'', Rename] two_collisions)) = []
   \<and> events (state_of (run mem_env [Rename, TypeName ''x'', Rename] two_collisions))
      = [DuplicateDialog ''x'' ''a.pdf'', DocClose ''/d/a.pdf'', DocOpen ''/d/b.pdf'',
         DocClose ''/d/b.pdf'', DocOpen ''/d/x.pdf'']
   \<and> current_index (state_of (run mem_env [Rename, TypeName ''x'', Rename] two_collisions)) = 2
   \<and> collision mem_env dismissed
   \<and> duplicate_handling_choice dismissed = Some ''ask''
   \<and> dialogs dismissed = [(None, True)]
   \<and> duplicate_handling_choice (state_of (rename_current mem_env dismissed)) = Some ''ask''
   \<and> duplicate_handling_choice three_files \<noteq> Some ''ask''
   \<and> duplicate_handling_choice three_files \<noteq> None
   \<and> duplicate_handling_choice
        (state_of (run mem_env [TypeName ''x'', Rename, TypeName ''y'', Rename] three_files))
      = Some ''skip''
   \<and> dialogs (state_of (run mem_env [TypeName ''x'', Rename, TypeName ''y'', Rename] three_files))
      = dialogs three_files"
proof -
  let ?acts = "[TypeName ''x'', Rename]"
  have b: "button_action SkipButton = ''skip''"
    by (simp add: button_action_def)
  have c: "duplicate_handling_choice three_files = Some ''skip''"
    by (simp add: three_files_def)
  have r: "events (state_of (run mem_env (Rename # ?acts) two_collisions))
      = [DuplicateDialog ''x'' ''a.pdf'', DocClose ''/d/a.pdf'', DocOpen ''/d/b.pdf'',
         DocClose ''/d/b.pdf'', DocOpen ''/d/x.pdf'']"
    "current_index (state_of (run mem_env (Rename # ?acts) two_collisions)) = 2"
    by (simp_all add: two_collisions_run del: run.simps)
  show ?thesis
    using two_collisions_first two_collisions_second dismissed_first b c r
      remembered_choice_applies_without_prompt
        [where env = mem_env and s = two_collisions and b = SkipButton and rest = "[]"
           and acts = ?acts and n = "[]" and f = "[]" and pressed = None and tick = True]
      remembered_choice_applies_without_prompt
        [where env = mem_env and s = dismissed and b = SkipButton and rest = "[]"
           and acts = "[]" and n = "[]" and f = "[]" and pressed = None and tick = True]
      remembered_choice_applies_without_prompt
        [where env = mem_env and s = three_files and b = SkipButton and rest = "[]"
           and acts = "[TypeName ''x'', Rename, TypeName ''y'', Rename]"
           and n = "[]" and f = "[]" and pressed = None and tick = True]
    by (simp del: run.simps)
qed

subsection \<open>The document handle\<close>

text \<open>
  Claim C9. Over any session, whatever its outcome, the events added respect the handles
  when read from the document open at the start: every call of \<^verbatim>\<open>os.rename\<close> and every
  opening of a document happens with no handle open, the previous document having been
  closed before.
\<close>

theorem handle_released_before_rename_and_open:
  "\<exists>es. events (state_of (run env acts s)) = events s @ es \<and> handles_ok (doc s) es"
  using run_session_step [of s env acts]
  by (auto simp: session_step_def ordered_def)

lemma two_files_run:
  "events (state_of (run mem_env [TypeName ''x'', Rename] two_files))
   = [DocClose ''/d/a.pdf'', OsRename ''/d/a.pdf'' ''/d/x.pdf'', DocOpen ''/d/b.pdf'']"
  by code_simp

theorem handle_released_before_rename_and_open_witness:
  "events (state_of (run mem_env [TypeName ''x'', Rename] two_files))
     = [DocClose ''/d/a.pdf'', OsRename ''/d/a.pdf'' ''/d/x.pdf'', DocOpen ''/d/b.pdf'']
   \<and> handles_ok (Some ''/d/a.pdf'')
       (events (state_of (run mem_env [TypeName ''x'', Rename] two_files)))"
proof -
  have e: "events two_files = []" and d: "doc two_files = Some ''/d/a.pdf''"
    by (simp_all add: two_files_def viewing_def start_def)
  from handle_released_before_rename_and_open [of mem_env "[TypeName ''x'', Rename]" two_files]
  have "handles_ok (Some ''/d/a.pdf'')
       (events (state_of (run mem_env [TypeName ''x'', Rename] two_files)))"
    using e d by (auto simp del: run.simps)
  with two_files_run show ?thesis by (simp del: run.simps)
qed

subsection \<open>A load that settles\<close>





subsection \<open>Loading stays in the folder unless another one is chosen\<close>

lemma in_folder_refl: "ready s \<Longrightarrow> in_folder env s s"
  by (simp add: in_folder_def)

lemma in_folder_trans:
  assumes "in_folder env s s1" and "in_folder env s1 s2"
  shows "in_folder env s s2"
proof -
  from assms(1) obtain a1 where a1: "fs s1 = fs s" "directories s = a1 @ directories s1"
    "(\<exists>d \<in> set a1. d \<noteq> [] \<and> d \<noteq> folder s \<and> fst (find_pdf_files env d s) \<noteq> [])
       \<or> (folder s1 = folder s \<and> pdf_files s1 = pdf_files s
           \<and> current_index s \<le> current_index s1
           \<and> (int (length (pdf_files s)) \<le> current_index s \<longrightarrow>
                 current_index s1 = current_index s))"
    unfolding in_folder_def by blast
  from assms(2) obtain a2 where a2: "fs s2 = fs s1" "ready s2"
    "directories s1 = a2 @ directories s2"
    "(\<exists>d \<in> set a2. d \<noteq> [] \<and> d \<noteq> folder s1 \<and> fst (find_pdf_files env d s1) \<noteq> [])
       \<or> (folder s2 = folder s1 \<and> pdf_files s2 = pdf_files s1
           \<and> current_index s1 \<le> current_index s2
           \<and> (int (length (pdf_files s1)) \<le> current_index s1 \<longrightarrow>
                 current_index s2 = current_index s1))"
    unfolding in_folder_def by blast
  have scan: "fst (find_pdf_files env d s1) = fst (find_pdf_files env d s)" for d
    using a1(1) by (rule find_pdf_files_fs)
  have d: "directories s = (a1 @ a2) @ directories s2"
    using a1(2) a2(3) by simp
  have "(\<exists>d \<in> set (a1 @ a2). d \<noteq> [] \<and> d \<noteq> folder s \<and> fst (find_pdf_files env d s) \<noteq> [])
       \<or> (folder s2 = folder s \<and> pdf_files s2 = pdf_files s
           \<and> current_index s \<le> current_index s2
           \<and> (int (length (pdf_files s)) \<le> current_index s \<longrightarrow>
                 current_index s2 = current_index s))"
    using a1(3) a2(4) scan by auto
  with d a1(1) a2(1,2) show ?thesis
    unfolding in_folder_def by (intro conjI exI [of _ "a1 @ a2"]) simp_all
qed


text \<open>Steps that keep the folder, the list, the filesystem and the pending answers.\<close>

lemma in_folder_same:
  assumes "ready s'" "fs s' = fs s" "directories s' = directories s" "folder s' = folder s"
    "pdf_files s' = pdf_files s" "current_index s' = current_index s"
  shows "in_folder env s s'"
  using assms by (simp add: in_folder_def)

lemma in_folder_left:
  assumes "in_folder env s s'" "fs t = fs s" "directories t = directories s"
    "folder t = folder s" "pdf_files t = pdf_files s" "current_index t \<le> current_index s"
    "current_index t = current_index s \<or> current_index t < int (length (pdf_files t))"
  shows "in_folder env t s'"
proof -
  have "fst (find_pdf_files env d t) = fst (find_pdf_files env d s)" for d
    using assms(2) by (rule find_pdf_files_fs)
  with assms show ?thesis
    unfolding in_folder_def by auto
qed

lemma in_folder_askyesno:
  "ready s \<Longrightarrow> askyesno t m s = Some (r, s') \<Longrightarrow> in_folder env s s'"
  by (auto simp: askyesno_def in_folder_def ready_def split: list.splits)

lemma in_folder_askdirectory:
  assumes "ready s" "askdirectory i s = Some (d, s')"
  shows "fs s' = fs s" "ready s'" "directories s = d # directories s'" "folder s' = folder s"
    "pdf_files s' = pdf_files s" "current_index s' = current_index s"
  using assms by (auto simp: askdirectory_def ready_def split: list.splits)

lemma find_pdf_files_directories [simp]:
  "directories (snd (find_pdf_files env d s)) = directories s"
  by (simp add: find_pdf_files_def showerror_def split: sum.splits os_error.splits)

lemma select_in_folder:
  "ready s \<Longrightarrow>
     in_folder env s (selection_state (select_and_load_new_folder_core env s))
     \<and> (\<forall>e t. select_and_load_new_folder_core env s \<noteq> Raises e t)"
proof (induction env s rule: select_and_load_new_folder_core.induct)
  case (1 env s)
  note rdy = \<open>ready s\<close>
  show ?case
  proof (cases "askdirectory (folder s) s")
    case None
    then show ?thesis
      using rdy
      by (subst (1 2) select_and_load_new_folder_core.simps)
         (simp add: selection_state_def in_folder_refl)
  next
    case (Some a)
    obtain new_folder s1 where a: "a = (new_folder, s1)" by (cases a)
    have ask: "askdirectory (folder s) s = Some (new_folder, s1)"
      using Some a by simp
    note s1 = in_folder_askdirectory [OF rdy ask]
    have l1: "in_folder env s s1"
      using s1 unfolding in_folder_def by (intro conjI exI [of _ "[new_folder]"]) simp_all
    obtain cf s2 where fnd: "find_pdf_files env new_folder s1 = (cf, s2)"
      by (cases "find_pdf_files env new_folder s1")
    have s2: "fs s2 = fs s1" "directories s2 = directories s1" "folder s2 = folder s1"
      "pdf_files s2 = pdf_files s1" "current_index s2 = current_index s1"
      using find_pdf_files_snd_fields [of env new_folder s1]
        find_pdf_files_directories [of env new_folder s1] fnd by simp_all
    have cf: "cf = fst (find_pdf_files env new_folder s)"
      using fnd find_pdf_files_fs [OF s1(1), of env new_folder] by simp
    show ?thesis
    proof (cases "new_folder = []")
      case True
      show ?thesis
      proof (cases "askyesno TITLE_CONFIRM_EXIT
          ''No folder was selected. Do you want to exit the application?'' s1")
        case None
        with ask True l1 show ?thesis
          by (subst (1 2) select_and_load_new_folder_core.simps) (simp add: selection_state_def)
      next
        case (Some b)
        obtain res s3 where b: "b = (res, s3)" by (cases b)
        with Some s1(2) have "in_folder env s1 s3" by (auto intro: in_folder_askyesno)
        with l1 have "in_folder env s s3" by (rule in_folder_trans)
        with ask True Some b show ?thesis
          by (subst (1 2) select_and_load_new_folder_core.simps) (simp add: selection_state_def)
      qed
    next
      case nonempty: False
      show ?thesis
      proof (cases "new_folder = folder s1 \<and> pdf_files s1 \<noteq> []")
        case True
        have "in_folder env s1 (showinfo TITLE_INFO
            ''The selected folder is already the current folder.'' s1)"
          using s1(2) by (intro in_folder_same) (simp_all add: showinfo_def ready_def)
        with l1 have "in_folder env s (showinfo TITLE_INFO
            ''The selected folder is already the current folder.'' s1)"
          by (rule in_folder_trans)
        with ask nonempty True show ?thesis
          by (subst (1 2) select_and_load_new_folder_core.simps) (simp add: selection_state_def)
      next
        case other: False
        show ?thesis
        proof (cases "cf = []")
          case True
          let ?s3 = "showerror TITLE_ERROR
               (''No PDF files found in '' @ quote @ new_folder @ quote
                  @ ''. Please choose another folder.'') s2"
          have r3: "ready ?s3"
            using s1(2) s2 by (simp add: ready_def showerror_def)
          have ih: "in_folder env ?s3 (selection_state (select_and_load_new_folder_core env ?s3))
              \<and> (\<forall>e t. select_and_load_new_folder_core env ?s3 \<noteq> Raises e t)"
            using "1.IH" [OF ask refl nonempty other fnd [symmetric] _ r3] True by simp
          have "in_folder env s1 ?s3"
            using r3 s2 by (intro in_folder_same) (simp_all add: showerror_def)
          with l1 have "in_folder env s ?s3" by (rule in_folder_trans)
          then have "in_folder env s (selection_state (select_and_load_new_folder_core env ?s3))"
            using ih by (blast intro: in_folder_trans)
          with ih ask nonempty other fnd True show ?thesis
            by (subst (1 2) select_and_load_new_folder_core.simps) auto
        next
          case False
          let ?s3 = "(close_current_doc s2)
                                 \<lparr>folder := new_folder, pdf_files := cf,
                                  current_index := 0, first_load_done := False\<rparr>"
          have "new_folder \<noteq> folder s"
            using other s1 by (simp add: ready_def)
          with nonempty False cf s1 s2 have "in_folder env s ?s3"
            unfolding in_folder_def
            by (intro conjI exI [of _ "[new_folder]"]) (simp_all add: ready_def)
          with ask nonempty other fnd False show ?thesis
            by (subst (1 2) select_and_load_new_folder_core.simps)
               (auto simp: selection_state_def)
        qed
      qed
    qed
  qed
qed


lemma select_returns_in_folder:
  assumes "ready s"
  shows "select_and_load_new_folder_core env s = Returns (ok, s') \<Longrightarrow> in_folder env s s'"
    "select_and_load_new_folder_core env s = NoReturn s' \<Longrightarrow> in_folder env s s'"
    "select_and_load_new_folder_core env s \<noteq> Raises e s'"
  using select_in_folder [OF assms, of env] by (simp_all add: selection_state_def)

lemma in_folder_ready: "in_folder env s s' \<Longrightarrow> ready s'"
  by (simp add: in_folder_def)

lemma loading_in_folder:
  fixes env env' env'' :: "'fs os_env"
  shows load_file_in_folder:
    "ready s0 \<Longrightarrow> index = current_index s0 \<Longrightarrow>
       in_folder env s0 (state_of (load_file env s0 index))
       \<and> (\<forall>e t. load_file env s0 index \<noteq> Raises e t)"
  and skip_current_in_folder:
    "ready t0 \<Longrightarrow>
       in_folder env' (t0\<lparr>current_index := current_index t0 + 1\<rparr>)
         (state_of (skip_current env' t0))
       \<and> (\<forall>e t. skip_current env' t0 \<noteq> Raises e t)"
  and change_folder_in_folder:
    "ready u \<Longrightarrow>
       in_folder env'' u (state_of (change_folder env'' u))
       \<and> (\<forall>e t. change_folder env'' u \<noteq> Raises e t)"
proof (induction env s0 index and env' t0 and env'' u
    rule: load_file_skip_current_change_folder.induct)
  case (1 env s0 index)
  let ?s = "close_current_doc s0"
  have rdy: "ready ?s"
    using "1.prems"(1) by (simp add: ready_def)
  have l0: "in_folder env s0 ?s"
    using rdy by (intro in_folder_same) simp_all
  have nonempty: "pdf_files ?s \<noteq> []"
    using rdy by (simp add: ready_def)
  have pos: "0 \<le> index"
    using "1.prems" by (simp add: ready_def)
  show ?case
  proof (cases "index \<ge> int (length (pdf_files ?s))")
    case True
    show ?thesis
    proof (cases "askyesno TITLE_FINISHED
        ''All files processed. Do you want to exit the program?'' ?s")
      case None
      with nonempty True l0 show ?thesis
        by (subst (1 2) load_file.simps) (simp add: Let_def state_of_def)
    next
      case (Some a)
      obtain result s1 where a: "a = (result, s1)" by (cases a)
      have ask: "askyesno TITLE_FINISHED
          ''All files processed. Do you want to exit the program?'' ?s = Some (result, s1)"
        using Some a by simp
      have "in_folder env ?s s1"
        using rdy ask by (rule in_folder_askyesno)
      with l0 have l1: "in_folder env s0 s1" by (rule in_folder_trans)
      then have r1: "ready s1" by (rule in_folder_ready)
      show ?thesis
      proof (cases result)
        case True
        have "in_folder env s1 (exit_app s1)"
          using r1 by (intro in_folder_same) (simp_all add: exit_app_def ready_def)
        with l1 have "in_folder env s0 (exit_app s1)" by (rule in_folder_trans)
        with True Some a nonempty \<open>index \<ge> int (length (pdf_files ?s))\<close> show ?thesis
          by (subst (1 2) load_file.simps) (simp add: Let_def state_of_def)
      next
        case False
        have ih: "in_folder env s1 (state_of (change_folder env s1))
            \<and> (\<forall>e t. change_folder env s1 \<noteq> Raises e t)"
          using "1.IH"(2) [OF refl \<open>index \<ge> int (length (pdf_files ?s))\<close> nonempty ask refl False r1] .
        with l1 have "in_folder env s0 (state_of (change_folder env s1))"
          by (blast intro: in_folder_trans)
        with ih False Some a nonempty \<open>index \<ge> int (length (pdf_files ?s))\<close> show ?thesis
          by (subst (1 2) load_file.simps) (simp add: Let_def)
      qed
    qed
  next
    case inrange: False
    have notneg: "\<not> index < - int (length (pdf_files ?s))"
      using pos by simp
    let ?current_file = "pdf_files ?s !
        nat (if index < 0 then int (length (pdf_files ?s)) + index else index)"
    let ?pdf_path = "path_join env (folder ?s) ?current_file"
    show ?thesis
    proof (cases "fitz_open env (fs ?s) ?pdf_path")
      case (Inl e)
      let ?s1 = "showerror TITLE_ERROR
          (''Failed to open PDF: '' @ ?current_file @ newline @ e) ?s"
      have r1: "ready ?s1"
        using rdy by (simp add: ready_def showerror_def)
      have ih: "in_folder env (?s1\<lparr>current_index := current_index ?s1 + 1\<rparr>)
            (state_of (skip_current env ?s1))
          \<and> (\<forall>e t. skip_current env ?s1 \<noteq> Raises e t)"
        using "1.IH"(3) [OF refl inrange notneg refl refl Inl r1] .
      have "in_folder env s0 (state_of (skip_current env ?s1))"
      proof (rule in_folder_left)
        show "in_folder env (?s1\<lparr>current_index := current_index ?s1 + 1\<rparr>)
            (state_of (skip_current env ?s1))"
          using ih by (rule conjunct1)
        show "current_index s0 = current_index (?s1\<lparr>current_index := current_index ?s1 + 1\<rparr>)
            \<or> current_index s0 < int (length (pdf_files s0))"
          using inrange "1.prems"(2) by simp
      qed (simp_all add: showerror_def)
      with ih inrange notneg Inl show ?thesis
        by (subst (1 2) load_file.simps) (simp add: Let_def)
    next
      case (Inr u)
      have "in_folder env s0 ((emit (DocOpen ?pdf_path) ?s)
                   \<lparr>doc := Some ?pdf_path, first_load_done := True,
                    name_entry := fst (path_splitext env ?current_file)\<rparr>)"
        using rdy by (intro in_folder_same) (simp_all add: ready_def)
      with inrange notneg Inr show ?thesis
        by (subst (1 2) load_file.simps) (simp add: Let_def state_of_def)
    qed
  qed
next
  case (2 env s0)
  let ?s1 = "(close_current_doc s0)\<lparr>current_index := current_index (close_current_doc s0) + 1\<rparr>"
  have r1: "ready ?s1"
    using "2.prems" by (simp add: ready_def)
  have ih: "in_folder env ?s1 (state_of (load_file env ?s1 (current_index ?s1)))
      \<and> (\<forall>e t. load_file env ?s1 (current_index ?s1) \<noteq> Raises e t)"
    using "2.IH" [OF refl refl r1 refl] .
  have "in_folder env (s0\<lparr>current_index := current_index s0 + 1\<rparr>)
      (state_of (load_file env ?s1 (current_index ?s1)))"
  proof (rule in_folder_left)
    show "in_folder env ?s1 (state_of (load_file env ?s1 (current_index ?s1)))"
      using ih by (rule conjunct1)
  qed simp_all
  with ih show ?case
    by (subst (1 2) skip_current.simps) (simp add: Let_def)
next
  case (3 env s)
  note rdy = \<open>ready s\<close>
  show ?case
  proof (cases "select_and_load_new_folder_core env s")
    case (Returns a)
    obtain ok s1 where a: "a = (ok, s1)" by (cases a)
    have ret: "select_and_load_new_folder_core env s = Returns (ok, s1)"
      using Returns a by simp
    have l1: "in_folder env s s1"
      using select_returns_in_folder(1) [OF rdy ret] .
    then have r1: "ready s1" by (rule in_folder_ready)
    show ?thesis
    proof (cases ok)
      case True
      have ih: "in_folder env s1 (state_of (load_file env s1 (current_index s1)))
          \<and> (\<forall>e t. load_file env s1 (current_index s1) \<noteq> Raises e t)"
        using "3.IH" [OF ret refl True r1 refl] .
      with l1 have "in_folder env s (state_of (load_file env s1 (current_index s1)))"
        by (blast intro: in_folder_trans)
      with ih True Returns a show ?thesis
        by (subst (1 2) change_folder.simps) simp
    next
      case False
      have "in_folder env s1 (showinfo TITLE_INFO
          ''Folder selection cancelled or failed. Continuing with previous state if any.'' s1)"
        using r1 by (intro in_folder_same) (simp_all add: showinfo_def ready_def)
      with l1 have "in_folder env s (showinfo TITLE_INFO
          ''Folder selection cancelled or failed. Continuing with previous state if any.'' s1)"
        by (rule in_folder_trans)
      with False Returns a show ?thesis
        by (subst (1 2) change_folder.simps) (simp add: state_of_def)
    qed
  next
    case (NoReturn s1)
    with select_returns_in_folder(2) [OF rdy NoReturn] show ?thesis
      by (subst (1 2) change_folder.simps) (simp add: state_of_def)
  next
    case (Raises e s1)
    with select_returns_in_folder(3) [OF rdy, of env e s1] show ?thesis
      by simp
  qed
qed






subsection \<open>The no-op case\<close>




text \<open>
  The other way the claim as stated fails: the file was the last, the user declines to exit
  and picks another folder; the file list is then the scan of that folder and the cursor is
  at its first file.
\<close>

lemma same_name_then_another_folder:
  "selected (then_another_folder ''a'')
   \<and> same_file mem_env (then_another_folder ''a'')
   \<and> loads_another_folder mem_env (then_another_folder ''a'')
        (state_of (rename_current mem_env (then_another_folder ''a'')))
   \<and> pdf_files (state_of (rename_current mem_env (then_another_folder ''a'')))
      = [''c.pdf'', ''d.pdf'']
   \<and> current_index (state_of (rename_current mem_env (then_another_folder ''a''))) = 0"
  by code_simp

subsection \<open>A successful rename\<close>





text \<open>
  The other way the claim as stated fails: the renamed file was the last, the user declines to exit
  and picks another folder; the file list is then the scan of that folder and the cursor is
  at its first file.
\<close>

lemma successful_rename_then_another_folder:
  "selected (then_another_folder ''x'')
   \<and> \<not> same_file mem_env (then_another_folder ''x'')
   \<and> loads_another_folder mem_env (then_another_folder ''x'')
        (state_of (rename_current mem_env (then_another_folder ''x'')))
   \<and> pdf_files (state_of (rename_current mem_env (then_another_folder ''x'')))
      = [''c.pdf'', ''d.pdf'']
   \<and> current_index (state_of (rename_current mem_env (then_another_folder ''x''))) = 0
   \<and> fs (state_of (rename_current mem_env (then_another_folder ''x'')))
      = \<lparr>entries = [(''/d/x.pdf'', True), (''/e/c.pdf'', True), (''/e/d.pdf'', True)],
         locked = []\<rparr>"
  by code_simp

subsection \<open>A failed rename\<close>

text \<open>
  Claim C2 at a failing input. The comments of lines 434 to 439 say that after a failed
  rename the cursor is not incremented and the user stays on the current item. Here
  \<^verbatim>\<open>a.pdf\<close> is no longer on the disk: \<^verbatim>\<open>os.rename\<close> raises, the error is reported with both
  names, and the reload of \<^verbatim>\<open>a.pdf\<close> fails too, so \<^verbatim>\<open>load_file\<close> skips it: the operation
  returns with the cursor at 1 and \<^verbatim>\<open>b.pdf\<close> displayed.
\<close>

theorem failed_rename_then_failed_reopen_advances:
  "selected first_vanished
   \<and> current_index first_vanished = 0
   \<and> os_rename mem_env (fs first_vanished) ''/d/a.pdf'' ''/d/x.pdf''
       = Inl ''No such file or directory''
   \<and> rename_current mem_env first_vanished
     = Returns (first_vanished
         \<lparr>current_index := 1, doc := Some ''/d/b.pdf'', first_load_done := True,
          name_entry := ''b'',
          events := [DocClose ''/d/a.pdf'', OsRename ''/d/a.pdf'' ''/d/x.pdf'',
            ShowError ''Error'' (''Error renaming '' @ quote @ ''a.pdf'' @ quote @ '' to ''
               @ quote @ ''x.pdf'' @ quote @ '':'' @ newline @ ''No such file or directory''),
            ShowError ''Error'' (''Failed to open PDF: a.pdf'' @ newline @ ''cannot open document''),
            DocOpen ''/d/b.pdf'']\<rparr>)"
  by code_simp

subsection \<open>The cursor and the end of the list\<close>

text \<open>
  Claim C6 at a failing input. \<^verbatim>\<open>rename_current\<close>, \<^verbatim>\<open>prev_file\<close> and \<^verbatim>\<open>next_file\<close> check the
  cursor against the list; \<^verbatim>\<open>skip_current\<close> does not. With one file, a first skip moves the
  cursor to 1, the length of the list; the user declines to exit and leaves the folder
  dialog, and the window stays. A second skip moves the cursor to 2, beyond the length.
\<close>

theorem skip_past_the_end:
  "current_index one_file = 0 \<and> length (pdf_files one_file) = 1
   \<and> run mem_env [Skip] one_file
     = Returns (one_file
         \<lparr>current_index := 1, doc := None, yesnos := [False, True], directories := [[]],
          events := [DocClose ''/d/a.pdf'',
            AskYesNo ''Finished'' ''All files processed. Do you want to exit the program?'',
            AskDirectory ''/d'',
            AskYesNo ''Confirm Exit''
              ''No folder was selected. Do you want to exit the application?'',
            ShowInfo ''Info''
              ''Folder selection cancelled or failed. Continuing with previous state if any.'']\<rparr>)
   \<and> current_index (state_of (run mem_env [Skip, Skip] one_file)) = 2
   \<and> length (pdf_files (state_of (run mem_env [Skip, Skip] one_file))) = 1
   \<and> \<not> exited (state_of (run mem_env [Skip, Skip] one_file))"
  by code_simp

end
